theory Spec2Isabelle
  imports Complex_Main "HOL-Library.Word"
begin

section \<open>Data model (types.ts)\<close>

text \<open>
  A JavaScript \<^verbatim>\<open>number\<close> is modelled as an exact real, the two infinities, or NaN.
  Rounding to the nearest double and the sign of zero are outside this model; where
  the code tests a value with \<^verbatim>\<open>isNaN\<close> or \<^verbatim>\<open>isFinite\<close> the test is made on
  the constructor.
\<close>

datatype jsnum = Fin real | PInf | NInf | NaN

text \<open>
  \<^verbatim>\<open>a + b\<close>, \<^verbatim>\<open>a * b\<close> and \<^verbatim>\<open>a / b\<close> on numbers, as IEEE 754 defines them
  on infinities and NaN. Every division in the modelled code has a divisor that the
  code has already compared with zero or that is a positive count, so the quotient by
  zero (whose sign depends on the sign of the zero) is given for \<open>+0\<close> only.
\<close>

definition jneg :: "jsnum \<Rightarrow> jsnum" where
  "jneg a = (case a of Fin x \<Rightarrow> Fin (- x) | PInf \<Rightarrow> NInf | NInf \<Rightarrow> PInf | NaN \<Rightarrow> NaN)"

definition jinf :: "bool \<Rightarrow> jsnum" where
  "jinf positive = (if positive then PInf else NInf)"

instantiation jsnum :: "{plus, times, inverse}"
begin

definition plus_jsnum :: "jsnum \<Rightarrow> jsnum \<Rightarrow> jsnum" where
  "plus_jsnum a b =
     (case (a, b) of
        (NaN, _) \<Rightarrow> NaN
      | (_, NaN) \<Rightarrow> NaN
      | (Fin x, Fin y) \<Rightarrow> Fin (x + y)
      | (PInf, NInf) \<Rightarrow> NaN
      | (NInf, PInf) \<Rightarrow> NaN
      | (PInf, _) \<Rightarrow> PInf
      | (NInf, _) \<Rightarrow> NInf
      | (_, PInf) \<Rightarrow> PInf
      | (_, NInf) \<Rightarrow> NInf)"

definition times_jsnum :: "jsnum \<Rightarrow> jsnum \<Rightarrow> jsnum" where
  "times_jsnum a b =
     (case (a, b) of
        (NaN, _) \<Rightarrow> NaN
      | (_, NaN) \<Rightarrow> NaN
      | (Fin x, Fin y) \<Rightarrow> Fin (x * y)
      | (Fin x, PInf) \<Rightarrow> (if x = 0 then NaN else jinf (0 < x))
      | (Fin x, NInf) \<Rightarrow> (if x = 0 then NaN else jinf (x < 0))
      | (PInf, Fin y) \<Rightarrow> (if y = 0 then NaN else jinf (0 < y))
      | (NInf, Fin y) \<Rightarrow> (if y = 0 then NaN else jinf (y < 0))
      | (PInf, PInf) \<Rightarrow> PInf
      | (NInf, NInf) \<Rightarrow> PInf
      | (PInf, NInf) \<Rightarrow> NInf
      | (NInf, PInf) \<Rightarrow> NInf)"

definition divide_jsnum :: "jsnum \<Rightarrow> jsnum \<Rightarrow> jsnum" where
  "divide_jsnum a b =
     (case (a, b) of
        (NaN, _) \<Rightarrow> NaN
      | (_, NaN) \<Rightarrow> NaN
      | (Fin x, Fin y) \<Rightarrow>
          (if y \<noteq> 0 then Fin (x / y) else if x = 0 then NaN else jinf (0 < x))
      | (Fin x, _) \<Rightarrow> Fin 0
      | (PInf, Fin y) \<Rightarrow> jinf (0 \<le> y)
      | (NInf, Fin y) \<Rightarrow> jinf (y < 0)
      | (_, _) \<Rightarrow> NaN)"

definition inverse_jsnum :: "jsnum \<Rightarrow> jsnum" where
  "inverse_jsnum a = divide (Fin 1) a"

instance ..

end

text \<open>\<^verbatim>\<open>x ** n\<close> for the exponents 2 to 5 that the code uses.\<close>

definition jpow :: "jsnum \<Rightarrow> nat \<Rightarrow> jsnum" where
  "jpow a n =
     (case a of
        Fin x \<Rightarrow> Fin (x ^ n)
      | PInf \<Rightarrow> (if n = 0 then Fin 1 else PInf)
      | NInf \<Rightarrow> (if n = 0 then Fin 1 else jinf (even n))
      | NaN \<Rightarrow> (if n = 0 then Fin 1 else NaN))"

definition isNaN :: "jsnum \<Rightarrow> bool" where
  "isNaN a = (a = NaN)"

definition isFinite :: "jsnum \<Rightarrow> bool" where
  "isFinite a = (case a of Fin _ \<Rightarrow> True | _ \<Rightarrow> False)"

text \<open>
  \<^verbatim>\<open>a === b\<close> on numbers: NaN is not equal to itself. \<^verbatim>\<open>!a\<close> on a number
  or null: null, 0 and NaN are falsy.
\<close>

definition strictEq :: "jsnum \<Rightarrow> jsnum \<Rightarrow> bool" where
  "strictEq a b = (a \<noteq> NaN \<and> a = b)"

definition falsy :: "jsnum option \<Rightarrow> bool" where
  "falsy v = (case v of None \<Rightarrow> True | Some a \<Rightarrow> a = Fin 0 \<or> a = NaN)"

text \<open>
  A JavaScript string is a sequence of 16-bit code units. \<open>js\<close> writes an ASCII
  literal as such a string.
\<close>

type_synonym jsstring = "16 word list"

definition js :: "string \<Rightarrow> jsstring" where
  "js s = map (\<lambda>c. of_nat (of_char c)) s"

type_synonym EID = jsstring

datatype Sex = M | F | X

datatype PointsPreset = F1 | Simple | Custom

record Athlete =
  id' :: jsstring
  name :: jsstring
  sex :: Sex
  age :: "jsnum option"
  bodyweight :: "jsnum option"
  squat :: "jsnum option"
  bench :: "jsnum option"
  deadlift :: "jsnum option"
  runTime :: jsstring

record State =
  title :: jsstring
  pointsPreset :: PointsPreset
  pointsCustom :: "jsnum list"
  athletes :: "Athlete list"

record EventMeta =
  eid :: EID
  title :: jsstring
  createdAt :: int
  updatedAt :: int

section \<open>Points table selection (EventView.tsx, lines 69-70 and 84-88)\<close>

definition F1_POINTS :: "jsnum list" where
  "F1_POINTS = map Fin [25, 18, 15, 12, 10, 8, 6, 4, 2, 1]"

definition SIMPLE_POINTS :: "jsnum list" where
  "SIMPLE_POINTS = map Fin [10, 7, 5, 3, 2, 1]"

text \<open>
  \<^verbatim>\<open>state.pointsCustom.length ? state.pointsCustom : SIMPLE_POINTS\<close>: a length of 0
  is the only falsy length.
\<close>

definition pointsTable :: "State \<Rightarrow> jsnum list" where
  "pointsTable state =
     (if pointsPreset state = F1 then F1_POINTS
      else if pointsPreset state = Simple then SIMPLE_POINTS
      else if length (pointsCustom state) \<noteq> 0 then pointsCustom state
      else SIMPLE_POINTS)"

section \<open>Strings and numeric literals (platform functions)\<close>

text \<open>
  \<^verbatim>\<open>String.prototype.split\<close> with a one-character separator: the pieces between
  the separators, so a string without the separator (the empty string too) gives one piece.
\<close>

fun split :: "'a \<Rightarrow> 'a list \<Rightarrow> 'a list list" where
  "split sep [] = [[]]"
| "split sep (c # cs) =
     (if c = sep then [] # split sep cs
      else (c # hd (split sep cs)) # tl (split sep cs))"

text \<open>
  \<^verbatim>\<open>String.prototype.trim\<close> removes the code units of WhiteSpace and
  LineTerminator from both ends.
\<close>

definition isWhiteSpace :: "16 word \<Rightarrow> bool" where
  "isWhiteSpace c =
     (c \<in> {0x9, 0xA, 0xB, 0xC, 0xD, 0x20, 0xA0, 0x1680, 0x2028, 0x2029, 0x202F, 0x205F,
            0x3000, 0xFEFF}
      \<or> (0x2000 \<le> c \<and> c \<le> 0x200A))"

definition trim :: "jsstring \<Rightarrow> jsstring" where
  "trim s = rev (dropWhile isWhiteSpace (rev (dropWhile isWhiteSpace s)))"

text \<open>
  \<^verbatim>\<open>Number(s)\<close> on a string (ECMAScript StringToNumber): the trimmed text is
  empty (value 0), a binary, octal or hexadecimal integer literal, or an optionally
  signed decimal literal with optional fraction and exponent, or \<^verbatim>\<open>Infinity\<close>;
  anything else is NaN. The value is the exact mathematical value of the literal.
\<close>

definition isDigit :: "16 word \<Rightarrow> bool" where
  "isDigit c = (0x30 \<le> c \<and> c \<le> 0x39)"

definition digitOf :: "16 word \<Rightarrow> nat" where
  "digitOf c =
     (if 0x30 \<le> c \<and> c \<le> 0x39 then unat c - 48
      else if 0x61 \<le> c \<and> c \<le> 0x66 then unat c - 87
      else if 0x41 \<le> c \<and> c \<le> 0x46 then unat c - 55
      else 16)"

definition digitsValue :: "nat \<Rightarrow> jsstring \<Rightarrow> nat" where
  "digitsValue base ds = foldl (\<lambda>acc c. acc * base + digitOf c) 0 ds"

definition radixLiteral :: "nat \<Rightarrow> jsstring \<Rightarrow> jsnum" where
  "radixLiteral base ds =
     (if ds \<noteq> [] \<and> list_all (\<lambda>c. digitOf c < base) ds
      then Fin (real (digitsValue base ds)) else NaN)"

definition signedInteger :: "jsstring \<Rightarrow> int option" where
  "signedInteger s =
     (let neg = (s \<noteq> [] \<and> hd s = 0x2D);
          ds = (if s \<noteq> [] \<and> (hd s = 0x2B \<or> hd s = 0x2D) then tl s else s)
      in if ds \<noteq> [] \<and> list_all isDigit ds
         then Some (if neg then - int (digitsValue 10 ds) else int (digitsValue 10 ds))
         else None)"

definition exponentPart :: "jsstring \<Rightarrow> int option" where
  "exponentPart s =
     (if s = [] then Some 0
      else if hd s = 0x65 \<or> hd s = 0x45 then signedInteger (tl s)
      else None)"

definition strUnsignedDecimalLiteral :: "jsstring \<Rightarrow> jsnum" where
  "strUnsignedDecimalLiteral s =
     (if s = js ''Infinity'' then PInf
      else
        let ip = takeWhile isDigit s;
            r1 = dropWhile isDigit s;
            dot = (r1 \<noteq> [] \<and> hd r1 = 0x2E);
            fp = (if dot then takeWhile isDigit (tl r1) else []);
            r2 = (if dot then dropWhile isDigit (tl r1) else r1)
        in if ip = [] \<and> fp = [] then NaN
           else case exponentPart r2 of
                  None \<Rightarrow> NaN
                | Some e \<Rightarrow>
                    Fin ((real (digitsValue 10 ip) + real (digitsValue 10 fp) / 10 ^ length fp)
                         * 10 powi e))"

definition strDecimalLiteral :: "jsstring \<Rightarrow> jsnum" where
  "strDecimalLiteral s =
     (if s \<noteq> [] \<and> hd s = 0x2B then strUnsignedDecimalLiteral (tl s)
      else if s \<noteq> [] \<and> hd s = 0x2D then jneg (strUnsignedDecimalLiteral (tl s))
      else strUnsignedDecimalLiteral s)"

definition Number :: "jsstring \<Rightarrow> jsnum" where
  "Number s =
     (let t = trim s in
      if t = [] then Fin 0
      else if take 2 t = js ''0x'' \<or> take 2 t = js ''0X'' then radixLiteral 16 (drop 2 t)
      else if take 2 t = js ''0o'' \<or> take 2 t = js ''0O'' then radixLiteral 8 (drop 2 t)
      else if take 2 t = js ''0b'' \<or> take 2 t = js ''0B'' then radixLiteral 2 (drop 2 t)
      else strDecimalLiteral t)"

section \<open>Time parsing (EventView.tsx, lines 8-17)\<close>

text \<open>
  \<^verbatim>\<open>if (!time) return null\<close>: the empty string is the only falsy string.
  \<^verbatim>\<open>parts.some(...)\<close> is \<open>list_ex\<close>; the indices read below are within the length
  just tested.
\<close>

definition parseTimeToSeconds :: "jsstring \<Rightarrow> jsnum option" where
  "parseTimeToSeconds time =
     (if time = [] then None
      else
        let parts = map trim (split 0x3A time) in
        if list_ex (\<lambda>p. p = [] \<or> isNaN (Number p)) parts then None
        else
          let nums = map Number parts in
          if length nums = 1 then Some (nums ! 0)
          else if length nums = 2 then Some (nums ! 0 * Fin 60 + nums ! 1)
          else if length nums = 3 then Some (nums ! 0 * Fin 3600 + nums ! 1 * Fin 60 + nums ! 2)
          else None)"

text \<open>
  The same function in the words of the specification: the text is split on the colon,
  a part is a trimmed piece, a part is numeric when it is not empty and \<open>Number\<close>
  gives a number for it, and the count of the parts selects the formula.
\<close>

definition parseClockTime_spec :: "jsstring \<Rightarrow> jsnum option" where
  "parseClockTime_spec text =
     (let parts = map trim (split 0x3A text) in
      if list_ex (\<lambda>p. p = [] \<or> Number p = NaN) parts then None
      else case map Number parts of
             [s] \<Rightarrow> Some s
           | [m, s] \<Rightarrow> Some (m * Fin 60 + s)
           | [h, m, s] \<Rightarrow> Some (h * Fin 3600 + m * Fin 60 + s)
           | _ \<Rightarrow> None)"

section \<open>Rank-to-points allocation (EventView.tsx, lines 46-67)\<close>

record ScoreRow =
  id' :: jsstring
  score :: "jsnum option"

text \<open>
  \<^verbatim>\<open>sortedScores[j].score === current.score\<close>, where the score on the right is a
  number: null is never equal to it.
\<close>

definition sameScore :: "jsnum option \<Rightarrow> jsnum \<Rightarrow> bool" where
  "sameScore s cur = (case s of None \<Rightarrow> False | Some v \<Rightarrow> strictEq v cur)"

text \<open>The inner \<^verbatim>\<open>while\<close> loop of line 59: the end of the run that has score \<open>cur\<close>.\<close>

function runEnd :: "ScoreRow list \<Rightarrow> jsnum \<Rightarrow> nat \<Rightarrow> nat" where
  "runEnd sortedScores cur j =
     (if j < length sortedScores \<and> sameScore (score (sortedScores ! j)) cur
      then runEnd sortedScores cur (j + 1) else j)"
  by pat_completeness auto
termination
  by (relation "measure (\<lambda>(sortedScores, cur, j). length sortedScores - j)") auto

declare runEnd.simps [simp del]

lemma runEnd_ge: "j \<le> runEnd sortedScores cur j"
proof (induction sortedScores cur j rule: runEnd.induct)
  case (1 sortedScores cur j)
  show ?case
  proof (cases "j < length sortedScores \<and> sameScore (score (sortedScores ! j)) cur")
    case True
    then have "runEnd sortedScores cur j = runEnd sortedScores cur (j + 1)"
      by (subst runEnd.simps) simp
    with 1 True show ?thesis by simp
  next
    case False
    then have "runEnd sortedScores cur j = j"
      by (subst runEnd.simps) auto
    then show ?thesis by simp
  qed
qed

text \<open>\<^verbatim>\<open>pointsTable[k] ?? 0\<close>: a rank beyond the table reads undefined, hence 0.\<close>

definition tableAt :: "jsnum list \<Rightarrow> nat \<Rightarrow> jsnum" where
  "tableAt table k = (if k < length table then table ! k else Fin 0)"

text \<open>Line 61: \<^verbatim>\<open>sum\<close> starts at 0 and takes the ranks \<open>i\<close> to \<open>j - 1\<close> in order.\<close>

definition sumPoints :: "jsnum list \<Rightarrow> nat \<Rightarrow> nat \<Rightarrow> jsnum" where
  "sumPoints table i j = foldl (\<lambda>sum k. sum + tableAt table k) (Fin 0) [i..<j]"

text \<open>
  The object \<^verbatim>\<open>result\<close> of line 50 is a plain object \<^verbatim>\<open>{}\<close> used as a
  dictionary: a map from the names of its own properties to numbers. An assignment
  \<^verbatim>\<open>result[key] = v\<close> of a number creates or overwrites the own property, except for
  the name \<^verbatim>\<open>__proto__\<close>: that assignment calls the setter that the object inherits
  from \<^verbatim>\<open>Object.prototype\<close>, which ignores a value that is not an object, so no
  property is stored.
\<close>

definition protoKey :: jsstring where
  "protoKey = js ''__proto__''"

definition setProperty :: "(jsstring \<rightharpoonup> jsnum) \<Rightarrow> jsstring \<Rightarrow> jsnum \<Rightarrow> (jsstring \<rightharpoonup> jsnum)" where
  "setProperty obj key v = (if key = protoKey then obj else obj(key \<mapsto> v))"

text \<open>
  Lines 55 and 63: \<^verbatim>\<open>result[sortedScores[k].id] = v\<close> for \<open>k\<close> from \<open>i\<close> to
  \<open>j - 1\<close>.
\<close>

definition assignAll ::
  "ScoreRow list \<Rightarrow> nat \<Rightarrow> nat \<Rightarrow> jsnum \<Rightarrow> (jsstring \<rightharpoonup> jsnum) \<Rightarrow> (jsstring \<rightharpoonup> jsnum)" where
  "assignAll sortedScores i j v result =
     foldl (\<lambda>r k. setProperty r (id' (sortedScores ! k)) v) result [i..<j]"

text \<open>
  The outer \<^verbatim>\<open>while\<close> loop. A null score assigns 0 to every remaining row and
  leaves the loop (\<^verbatim>\<open>break\<close>); otherwise the run from \<open>i\<close> to \<open>j\<close> shares the sum
  of its ranks and the loop goes on at \<open>j\<close>.
\<close>

function allocLoop ::
  "ScoreRow list \<Rightarrow> jsnum list \<Rightarrow> nat \<Rightarrow> (jsstring \<rightharpoonup> jsnum) \<Rightarrow> (jsstring \<rightharpoonup> jsnum)" where
  "allocLoop sortedScores table i result =
     (if i < length sortedScores then
        (case score (sortedScores ! i) of
           None \<Rightarrow> assignAll sortedScores i (length sortedScores) (Fin 0) result
         | Some cur \<Rightarrow>
             let j = runEnd sortedScores cur (i + 1);
                 sum = sumPoints table i j;
                 perHead = sum / Fin (real (j - i))
             in allocLoop sortedScores table j (assignAll sortedScores i j perHead result))
      else result)"
  by pat_completeness auto
termination
proof (relation "measure (\<lambda>(sortedScores, table, i, result). length sortedScores - i)")
  show "wf (measure (\<lambda>(sortedScores, table, i, result). length sortedScores - i))"
    by simp
next
  fix sortedScores :: "ScoreRow list" and table :: "jsnum list" and i :: nat
    and result :: "jsstring \<rightharpoonup> jsnum" and cur j sum perHead
  assume "i < length sortedScores" and j: "j = runEnd sortedScores cur (i + 1)"
  have "i + 1 \<le> j"
    unfolding j by (rule runEnd_ge)
  then show "((sortedScores, table, j, assignAll sortedScores i j perHead result),
              (sortedScores, table, i, result))
             \<in> measure (\<lambda>(sortedScores, table, i, result). length sortedScores - i)"
    using \<open>i < length sortedScores\<close> by simp
qed

declare allocLoop.simps [simp del]

definition allocatePointsByRank :: "ScoreRow list \<Rightarrow> jsnum list \<Rightarrow> (jsstring \<rightharpoonup> jsnum)" where
  "allocatePointsByRank sortedScores table = allocLoop sortedScores table 0 Map.empty"

text \<open>
  The share a run is due under the average-of-tied-ranks rule: the table values of the
  ranks \<open>a\<close> to \<open>b - 1\<close> (0 beyond the table), added up and divided by their count.
\<close>

definition runAverage :: "jsnum list \<Rightarrow> nat \<Rightarrow> nat \<Rightarrow> jsnum" where
  "runAverage table a b = sumPoints table a b / Fin (real (b - a))"

text \<open>The value of a table of finite numbers at a rank, 0 beyond the table.\<close>

definition tableValue :: "real list \<Rightarrow> nat \<Rightarrow> real" where
  "tableValue t k = (if k < length t then t ! k else 0)"

text \<open>
  A maximal run of rows \<open>a\<close> to \<open>b - 1\<close> with an identical score: row \<open>a\<close> is scored,
  every later row of the run has its score, and the rows next to the run on either
  side, where there are any, do not.
\<close>

definition maximalRun :: "ScoreRow list \<Rightarrow> nat \<Rightarrow> nat \<Rightarrow> bool" where
  "maximalRun rows a b =
     (a < b \<and> b \<le> length rows \<and>
      (case score (rows ! a) of
         None \<Rightarrow> False
       | Some cur \<Rightarrow>
           list_all (\<lambda>k. sameScore (score (rows ! k)) cur) [a + 1..<b] \<and>
           (a = 0 \<or> (if sameScore (score (rows ! (a - 1))) cur then False else True)) \<and>
           (b = length rows \<or> (if sameScore (score (rows ! b)) cur then False else True))))"

text \<open>All scored rows come before the unscored ones.\<close>

definition scoredFirst :: "ScoreRow list \<Rightarrow> bool" where
  "scoredFirst rows =
     list_all (\<lambda>k. if score (rows ! k) = None
                     then list_all (\<lambda>l. score (rows ! l) = None) [k..<length rows] else True)
       [0..<length rows]"

text \<open>
  \<^verbatim>\<open>a >= b\<close> on numbers, and a list sorted descending by score with the scored
  rows first.
\<close>

definition jsGe :: "jsnum \<Rightarrow> jsnum \<Rightarrow> bool" where
  "jsGe a b =
     (case (a, b) of
        (NaN, _) \<Rightarrow> False
      | (_, NaN) \<Rightarrow> False
      | (Fin x, Fin y) \<Rightarrow> y \<le> x
      | (PInf, _) \<Rightarrow> True
      | (_, NInf) \<Rightarrow> True
      | (_, _) \<Rightarrow> False)"

definition sortedDescending :: "ScoreRow list \<Rightarrow> bool" where
  "sortedDescending rows =
     (scoredFirst rows \<and>
      list_all (\<lambda>k. case (score (rows ! k), score (rows ! (k + 1))) of
                     (Some x, Some y) \<Rightarrow> jsGe x y
                   | (_, _) \<Rightarrow> True)
        [0..<length rows - 1])"

section \<open>DOTS score (EventView.tsx, lines 30-44)\<close>

datatype SexDOTS = DOTS_M | DOTS_F

record DotsCoeff =
  coefA :: jsnum
  coefB :: jsnum
  coefC :: jsnum
  coefD :: jsnum
  coefE :: jsnum
  coefF :: jsnum

definition DOTS_COEFF :: "SexDOTS \<Rightarrow> DotsCoeff" where
  "DOTS_COEFF s =
     (case s of
        DOTS_M \<Rightarrow>
          \<lparr>coefA = Fin 47.46178854, coefB = Fin 8.472061379, coefC = Fin 0.07369410346,
           coefD = Fin (- 0.001395833811), coefE = Fin 0.00000707665973070743,
           coefF = Fin (- 0.0000000120804336482315)\<rparr>
      | DOTS_F \<Rightarrow>
          \<lparr>coefA = Fin (- 125.4255398), coefB = Fin 13.71219419, coefC = Fin (- 0.03307250631),
           coefD = Fin (- 0.001050400051), coefE = Fin 0.00000938773881462799,
           coefF = Fin (- 0.000000023334613884954)\<rparr>)"

definition jsLe :: "jsnum \<Rightarrow> jsnum \<Rightarrow> bool" where
  "jsLe a b = jsGe b a"

text \<open>
  Line 36 is \<^verbatim>\<open>!totalKg || !bodyweightKg || bodyweightKg <= 0\<close>: the total is tested
  for being null, 0 or NaN only, the bodyweight for its sign too. Line 37 maps the sex
  to a row of the coefficient table, or to null. Line 42 is
  \<^verbatim>\<open>!isFinite(denom) || denom === 0\<close>, whose right side is evaluated for a finite
  \<open>denom\<close> only.
\<close>

definition dotsPoints :: "jsnum option \<Rightarrow> jsnum option \<Rightarrow> Sex \<Rightarrow> jsnum option" where
  "dotsPoints totalKg bodyweightKg sx =
     (case (totalKg, bodyweightKg) of
        (Some t, Some x) \<Rightarrow>
          if falsy totalKg \<or> falsy bodyweightKg \<or> jsLe x (Fin 0) then None
          else
            (case (if sx = F then Some DOTS_F else if sx = M then Some DOTS_M else None) of
               None \<Rightarrow> None
             | Some s \<Rightarrow>
                 let c = DOTS_COEFF s;
                     denom = coefA c + coefB c * x + coefC c * jpow x 2 + coefD c * jpow x 3
                             + coefE c * jpow x 4 + coefF c * jpow x 5
                 in if (if isFinite denom then strictEq denom (Fin 0) else True) then None
                    else Some (Fin 600 / denom * t))
      | (_, _) \<Rightarrow> None)"

text \<open>The polynomial of the DOTS formula on the reals, with the coefficients of a row.\<close>

definition dotsPolynomial :: "DotsCoeff \<Rightarrow> real \<Rightarrow> jsnum" where
  "dotsPolynomial c x =
     coefA c + coefB c * Fin x + coefC c * Fin (x ^ 2) + coefD c * Fin (x ^ 3)
     + coefE c * Fin (x ^ 4) + coefF c * Fin (x ^ 5)"

section \<open>Event store (storage.ts)\<close>

text \<open>
  \<^verbatim>\<open>JSON.stringify\<close> and \<^verbatim>\<open>JSON.parse\<close> at the types the program uses them
  at are parameters of the model. A parse gives \<open>None\<close> where \<^verbatim>\<open>JSON.parse\<close>
  throws or returns null, and for a payload also where the object has no state: the
  caller (App.tsx, line 64) treats a payload without a state like no payload.
  \<open>KeyPayload\<close> is the argument of \<^verbatim>\<open>makeEventKey\<close>, \<open>Payload\<close> the result of
  \<^verbatim>\<open>readEventKey\<close> and the argument of \<^verbatim>\<open>addOrForkEvent\<close>.
\<close>

record KeyPayload =
  key_eid :: EID
  key_state :: State

record Payload =
  payload_eid :: "EID option"
  payload_state :: State

record JSON =
  stringifyState :: "State \<Rightarrow> jsstring"
  parseState :: "jsstring \<Rightarrow> State option"
  stringifyIndex :: "EventMeta list \<Rightarrow> jsstring"
  stringifyPayload :: "KeyPayload \<Rightarrow> jsstring"
  parsePayload :: "jsstring \<Rightarrow> Payload option"

text \<open>
  \<^verbatim>\<open>window.localStorage\<close>: the stored items, and the contents the browser has
  room for. \<^verbatim>\<open>setItem\<close> throws (\<open>None\<close>) when the new contents do not fit.
\<close>

record Storage =
  items :: "jsstring \<rightharpoonup> jsstring"
  fits :: "(jsstring \<rightharpoonup> jsstring) \<Rightarrow> bool"

definition getItem :: "Storage \<Rightarrow> jsstring \<Rightarrow> jsstring option" where
  "getItem ls k = items ls k"

definition setItem :: "Storage \<Rightarrow> jsstring \<Rightarrow> jsstring \<Rightarrow> Storage option" where
  "setItem ls k v =
     (if fits ls ((items ls)(k \<mapsto> v)) then Some (ls\<lparr>items := (items ls)(k \<mapsto> v)\<rparr>) else None)"

definition KEY_INDEX :: jsstring where
  "KEY_INDEX = js ''liftwin:index''"

definition KEY_EVENT_PREFIX :: jsstring where
  "KEY_EVENT_PREFIX = js ''liftwin:event:''"

definition eventKey :: "EID \<Rightarrow> jsstring" where
  "eventKey e = KEY_EVENT_PREFIX @ e"

text \<open>
  \<^verbatim>\<open>saveIndex\<close>, \<^verbatim>\<open>saveEvent\<close>: a write that throws is swallowed by the empty
  \<^verbatim>\<open>catch\<close> and leaves the storage as it was. \<^verbatim>\<open>loadEvent\<close>: a missing item, an
  empty item (falsy) and an item that does not parse all give null.
\<close>

definition saveIndex :: "JSON \<Rightarrow> Storage \<Rightarrow> EventMeta list \<Rightarrow> Storage" where
  "saveIndex J ls list =
     (case setItem ls KEY_INDEX (stringifyIndex J list) of None \<Rightarrow> ls | Some ls' \<Rightarrow> ls')"

definition loadEvent :: "JSON \<Rightarrow> Storage \<Rightarrow> EID \<Rightarrow> State option" where
  "loadEvent J ls e =
     (case getItem ls (eventKey e) of
        None \<Rightarrow> None
      | Some s \<Rightarrow> if s = [] then None else parseState J s)"

definition saveEvent :: "JSON \<Rightarrow> Storage \<Rightarrow> EID \<Rightarrow> State \<Rightarrow> Storage" where
  "saveEvent J ls e st =
     (case setItem ls (eventKey e) (stringifyState J st) of None \<Rightarrow> ls | Some ls' \<Rightarrow> ls')"

section \<open>Reconciliation of an imported event (App.tsx, lines 162-189)\<close>

text \<open>
  The effects of \<^verbatim>\<open>addOrForkEvent\<close> are on the local storage and on the React state
  \<^verbatim>\<open>index\<close>, which \<^verbatim>\<open>setIndex\<close> replaces; \<open>indexState\<close> is the value last set.
  The function reads \<^verbatim>\<open>index\<close> as the constant its closure has captured, the
  argument \<open>index\<close> here. \<open>uuid1\<close> and \<open>uuid2\<close> are what \<^verbatim>\<open>crypto.randomUUID()\<close>
  returns when \<^verbatim>\<open>newEid\<close> is called at line 164 and at line 180, \<open>now\<close> is what
  \<^verbatim>\<open>Date.now()\<close> returns. The state of the payload is present: line 163 asserts
  it, and the caller has tested it at line 64.
\<close>

record World =
  localStorage :: Storage
  indexState :: "EventMeta list"

record Imported =
  imported_eid :: EID
  imported_state :: State

definition addOrForkEvent ::
  "JSON \<Rightarrow> EventMeta list \<Rightarrow> EID \<Rightarrow> EID \<Rightarrow> int \<Rightarrow> World \<Rightarrow> Payload \<Rightarrow> Imported \<times> World" where
  "addOrForkEvent J index uuid1 uuid2 now w payload =
     (let incomingState = payload_state payload;
          incomingEid = (case payload_eid payload of Some e \<Rightarrow> e | None \<Rightarrow> uuid1);
          existing = loadEvent J (localStorage w) incomingEid
      in case existing of
           None \<Rightarrow>
             let ls1 = saveEvent J (localStorage w) incomingEid incomingState;
                 meta = \<lparr>eid = incomingEid, title = State.title incomingState,
                          createdAt = now, updatedAt = now\<rparr>;
                 next = meta # index;
                 ls2 = saveIndex J ls1 next
             in (\<lparr>imported_eid = incomingEid, imported_state = incomingState\<rparr>,
                 \<lparr>localStorage = ls2, indexState = next\<rparr>)
         | Some ex \<Rightarrow>
             if stringifyState J ex = stringifyState J incomingState
             then (\<lparr>imported_eid = incomingEid, imported_state = ex\<rparr>, w)
             else
               let e = uuid2;
                   ls1 = saveEvent J (localStorage w) e incomingState;
                   meta = \<lparr>eid = e, title = State.title incomingState,
                            createdAt = now, updatedAt = now\<rparr>;
                   next = meta # index;
                   ls2 = saveIndex J ls1 next
               in (\<lparr>imported_eid = e, imported_state = incomingState\<rparr>,
                   \<lparr>localStorage = ls2, indexState = next\<rparr>))"

text \<open>
  Instances for the examples below: a serialisation that writes the title of a state
  between braces and reads it back (for a payload, the identifier, a bar and the title),
  a state with a given title, and a storage with one event.
\<close>

definition exampleState :: "jsstring \<Rightarrow> State" where
  "exampleState t = \<lparr>State.title = t, pointsPreset = F1, pointsCustom = [], athletes = []\<rparr>"

definition exampleJSON :: JSON where
  "exampleJSON =
     \<lparr>stringifyState = (\<lambda>st. js ''{'' @ State.title st @ js ''}''),
      parseState = (\<lambda>t. if 2 \<le> length t \<and> hd t = 0x7B \<and> last t = 0x7D
                          then Some (exampleState (butlast (tl t))) else None),
      stringifyIndex = (\<lambda>list. concat (map (\<lambda>m. js ''['' @ eid m @ js '']'') list)),
      stringifyPayload = (\<lambda>p. js ''{'' @ key_eid p @ js ''|'' @ State.title (key_state p) @ js ''}''),
      parsePayload = (\<lambda>t. if 2 \<le> length t \<and> hd t = 0x7B \<and> last t = 0x7D
                              \<and> list_ex (\<lambda>c. c = 0x7C) t
                           then Some \<lparr>payload_eid =
                                        Some (takeWhile (\<lambda>c. c \<noteq> 0x7C) (butlast (tl t))),
                                      payload_state =
                                        exampleState
                                          (tl (dropWhile (\<lambda>c. c \<noteq> 0x7C) (butlast (tl t))))\<rparr>
                           else None)\<rparr>"

definition exampleStorage :: Storage where
  "exampleStorage =
     \<lparr>items = [eventKey (js ''e1'') \<mapsto> js ''{Meet}''], fits = (\<lambda>m. True)\<rparr>"

definition exampleWorld :: World where
  "exampleWorld = \<lparr>localStorage = exampleStorage, indexState = []\<rparr>"

section \<open>Reading the URL fragment\<close>

text \<open>
  The first group of the leftmost match of \<^verbatim>\<open>/[#&]k=([^&]+)/\<close>, or \<open>None\<close> when
  the text has no match: at a position with \<^verbatim>\<open>#\<close> or \<^verbatim>\<open>&\<close> followed by
  \<^verbatim>\<open>k=\<close> the greedy group takes the code units up to the next \<^verbatim>\<open>&\<close>, and the
  match succeeds when there is at least one.
\<close>

fun matchKey :: "jsstring \<Rightarrow> jsstring option" where
  "matchKey [] = None"
| "matchKey (c # cs) =
     (if (c = 0x23 \<or> c = 0x26) \<and> take 2 cs = js ''k=''
         \<and> takeWhile (\<lambda>d. d \<noteq> 0x26) (drop 2 cs) \<noteq> []
      then Some (takeWhile (\<lambda>d. d \<noteq> 0x26) (drop 2 cs))
      else matchKey cs)"

text \<open>
  \<^verbatim>\<open>decodeURIComponent\<close> is a parameter \<open>dec\<close>; it is \<open>None\<close> where the platform
  function throws a URIError. \<^verbatim>\<open>extractKeyFromUrl\<close> (eventKey.ts, lines 24-31)
  catches the error; lines 60 to 62 of \<^verbatim>\<open>importFromHash\<close> (App.tsx) do not.
\<close>

definition extractKeyFromUrl :: "(jsstring \<Rightarrow> jsstring option) \<Rightarrow> jsstring \<Rightarrow> jsstring option" where
  "extractKeyFromUrl dec text = (case matchKey text of None \<Rightarrow> None | Some m \<Rightarrow> dec m)"

datatype hashKey = NoMatch | URIError | Key jsstring

definition importFromHash_key :: "(jsstring \<Rightarrow> jsstring option) \<Rightarrow> jsstring \<Rightarrow> hashKey" where
  "importFromHash_key dec hash =
     (case matchKey hash of
        None \<Rightarrow> NoMatch
      | Some m \<Rightarrow> (case dec m of None \<Rightarrow> URIError | Some key \<Rightarrow> Key key))"

text \<open>
  The earlier single-file App (part 003, lines 116-120) takes the event identifier
  from the fragment: the first group of the leftmost match of
  \<^verbatim>\<open>/event=([A-Za-z0-9-]+)/\<close> in the hash without its leading \<^verbatim>\<open>#\<close>, or else a
  new UUID.
\<close>

definition isEventIdChar :: "16 word \<Rightarrow> bool" where
  "isEventIdChar c =
     ((0x41 \<le> c \<and> c \<le> 0x5A) \<or> (0x61 \<le> c \<and> c \<le> 0x7A) \<or> (0x30 \<le> c \<and> c \<le> 0x39) \<or> c = 0x2D)"

fun matchEvent :: "jsstring \<Rightarrow> jsstring option" where
  "matchEvent [] = None"
| "matchEvent (c # cs) =
     (if take 6 (c # cs) = js ''event='' \<and> takeWhile isEventIdChar (drop 6 (c # cs)) \<noteq> []
      then Some (takeWhile isEventIdChar (drop 6 (c # cs)))
      else matchEvent cs)"

definition initialEventId :: "jsstring \<Rightarrow> EID \<Rightarrow> EID" where
  "initialEventId hash uuid =
     (let h = (if hash \<noteq> [] \<and> hd hash = 0x23 then tl hash else hash)
      in case matchEvent h of Some m \<Rightarrow> m | None \<Rightarrow> uuid)"

text \<open>
  A fragment with parameters: \<^verbatim>\<open>#\<close>, then \<open>name=value\<close> pieces with \<^verbatim>\<open>&\<close>
  between them. A name has none of \<^verbatim>\<open>#\<close>, \<^verbatim>\<open>&\<close>, \<^verbatim>\<open>=\<close>, a value none of
  \<^verbatim>\<open>#\<close>, \<^verbatim>\<open>&\<close>. The share token of a fragment is the value of its first
  parameter \<open>k\<close> that has a value.
\<close>

fun joinParams :: "(jsstring \<times> jsstring) list \<Rightarrow> jsstring" where
  "joinParams [] = []"
| "joinParams [(n, v)] = n @ 0x3D # v"
| "joinParams ((n, v) # p # ps) = n @ 0x3D # v @ 0x26 # joinParams (p # ps)"

definition fragmentOf :: "(jsstring \<times> jsstring) list \<Rightarrow> jsstring" where
  "fragmentOf ps = 0x23 # joinParams ps"

definition wellFormedParam :: "jsstring \<times> jsstring \<Rightarrow> bool" where
  "wellFormedParam p =
     (list_all (\<lambda>c. c \<noteq> 0x23 \<and> c \<noteq> 0x26 \<and> c \<noteq> 0x3D) (fst p) \<and>
      list_all (\<lambda>c. c \<noteq> 0x23 \<and> c \<noteq> 0x26) (snd p))"

fun firstKey :: "(jsstring \<times> jsstring) list \<Rightarrow> jsstring option" where
  "firstKey [] = None"
| "firstKey ((n, v) # ps) = (if n = js ''k'' \<and> v \<noteq> [] then Some v else firstKey ps)"

section \<open>Share codec (eventKey.ts, lines 4-21)\<close>

subsection \<open>Platform functions: text encoding\<close>

text \<open>
  \<^verbatim>\<open>new TextEncoder().encode(s)\<close>: the string is read as scalar values (a surrogate
  pair is one value above U+FFFF, a lone surrogate becomes U+FFFD), and every scalar
  value is written as one to four bytes of UTF-8.
\<close>

definition isHighSurrogate :: "16 word \<Rightarrow> bool" where
  "isHighSurrogate c = (0xD800 \<le> c \<and> c \<le> 0xDBFF)"

definition isLowSurrogate :: "16 word \<Rightarrow> bool" where
  "isLowSurrogate c = (0xDC00 \<le> c \<and> c \<le> 0xDFFF)"

fun toScalarValues :: "jsstring \<Rightarrow> nat list" where
  "toScalarValues [] = []"
| "toScalarValues [c] = [if isHighSurrogate c \<or> isLowSurrogate c then 0xFFFD else unat c]"
| "toScalarValues (c # d # cs) =
     (if isHighSurrogate c \<and> isLowSurrogate d
      then (0x10000 + (unat c - 0xD800) * 0x400 + (unat d - 0xDC00)) # toScalarValues cs
      else (if isHighSurrogate c \<or> isLowSurrogate c then 0xFFFD else unat c)
           # toScalarValues (d # cs))"

definition utf8Encode1 :: "nat \<Rightarrow> 8 word list" where
  "utf8Encode1 cp =
     (if cp < 0x80 then [of_nat cp]
      else if cp < 0x800 then [of_nat (0xC0 + cp div 0x40), of_nat (0x80 + cp mod 0x40)]
      else if cp < 0x10000 then
        [of_nat (0xE0 + cp div 0x1000), of_nat (0x80 + cp div 0x40 mod 0x40),
         of_nat (0x80 + cp mod 0x40)]
      else
        [of_nat (0xF0 + cp div 0x40000), of_nat (0x80 + cp div 0x1000 mod 0x40),
         of_nat (0x80 + cp div 0x40 mod 0x40), of_nat (0x80 + cp mod 0x40)])"

definition TextEncoder_encode :: "jsstring \<Rightarrow> 8 word list" where
  "TextEncoder_encode s = concat (map utf8Encode1 (toScalarValues s))"

text \<open>
  \<^verbatim>\<open>new TextDecoder().decode(bytes)\<close>: the UTF-8 decoder of the Encoding standard
  with replacement of errors. The decoder keeps the code point under construction, the
  count of continuation bytes seen and needed, and the bounds for the next byte; a
  byte that cannot continue a sequence is an error (U+FFFD) and is read again as the
  start of a sequence. A leading byte order mark EF BB BF is dropped. The code points
  are written as code units, above U+FFFF as a surrogate pair.
\<close>

record utf8Decoder =
  codePoint :: nat
  bytesSeen :: nat
  bytesNeeded :: nat
  lowerBoundary :: nat
  upperBoundary :: nat

definition utf8Initial :: utf8Decoder where
  "utf8Initial =
     \<lparr>codePoint = 0, bytesSeen = 0, bytesNeeded = 0, lowerBoundary = 0x80, upperBoundary = 0xBF\<rparr>"

function utf8Decode :: "utf8Decoder \<Rightarrow> 8 word list \<Rightarrow> nat list" where
  "utf8Decode st [] = (if bytesNeeded st = 0 then [] else [0xFFFD])"
| "utf8Decode st (b # bs) =
     (if bytesNeeded st = 0 then
        (if unat b \<le> 0x7F then unat b # utf8Decode st bs
         else if 0xC2 \<le> unat b \<and> unat b \<le> 0xDF then
           utf8Decode (st\<lparr>bytesNeeded := 1, codePoint := unat b mod 0x20\<rparr>) bs
         else if 0xE0 \<le> unat b \<and> unat b \<le> 0xEF then
           utf8Decode
             (st\<lparr>lowerBoundary := (if unat b = 0xE0 then 0xA0 else lowerBoundary st),
                 upperBoundary := (if unat b = 0xED then 0x9F else upperBoundary st),
                 bytesNeeded := 2, codePoint := unat b mod 0x10\<rparr>) bs
         else if 0xF0 \<le> unat b \<and> unat b \<le> 0xF4 then
           utf8Decode
             (st\<lparr>lowerBoundary := (if unat b = 0xF0 then 0x90 else lowerBoundary st),
                 upperBoundary := (if unat b = 0xF4 then 0x8F else upperBoundary st),
                 bytesNeeded := 3, codePoint := unat b mod 0x8\<rparr>) bs
         else 0xFFFD # utf8Decode st bs)
      else if unat b < lowerBoundary st \<or> upperBoundary st < unat b then
        0xFFFD # utf8Decode utf8Initial (b # bs)
      else if bytesSeen st + 1 = bytesNeeded st then
        (codePoint st * 0x40 + unat b mod 0x40) # utf8Decode utf8Initial bs
      else
        utf8Decode
          (st\<lparr>lowerBoundary := 0x80, upperBoundary := 0xBF,
              codePoint := codePoint st * 0x40 + unat b mod 0x40,
              bytesSeen := bytesSeen st + 1\<rparr>) bs)"
  by pat_completeness auto
termination
  by (relation "measure (\<lambda>(st, bs). 2 * length bs + (if bytesNeeded st = 0 then 0 else 1))")
    (auto simp add: utf8Initial_def)

declare utf8Decode.simps [simp del]

definition fromCodePoint :: "nat \<Rightarrow> jsstring" where
  "fromCodePoint cp =
     (if cp < 0x10000 then [of_nat cp]
      else [of_nat (0xD800 + (cp - 0x10000) div 0x400),
            of_nat (0xDC00 + (cp - 0x10000) mod 0x400)])"

definition TextDecoder_decode :: "8 word list \<Rightarrow> jsstring" where
  "TextDecoder_decode bytes =
     (let input = (if take 3 bytes = [0xEF, 0xBB, 0xBF] then drop 3 bytes else bytes)
      in concat (map fromCodePoint (utf8Decode utf8Initial input)))"

subsection \<open>Platform functions: Base64\<close>

text \<open>
  \<^verbatim>\<open>btoa\<close> throws (\<open>None\<close>) on a code unit above U+00FF; otherwise the code units
  are bytes, and three bytes become four characters of the Base64 alphabet, with
  \<^verbatim>\<open>=\<close> as padding.
\<close>

definition base64Char :: "nat \<Rightarrow> 16 word" where
  "base64Char n =
     (if n < 26 then of_nat (0x41 + n)
      else if n < 52 then of_nat (0x61 + (n - 26))
      else if n < 62 then of_nat (0x30 + (n - 52))
      else if n = 62 then 0x2B
      else 0x2F)"

fun base64Encode :: "8 word list \<Rightarrow> jsstring" where
  "base64Encode [] = []"
| "base64Encode [a] =
     [base64Char (unat a div 4), base64Char (unat a mod 4 * 16), 0x3D, 0x3D]"
| "base64Encode [a, b] =
     [base64Char (unat a div 4), base64Char (unat a mod 4 * 16 + unat b div 16),
      base64Char (unat b mod 16 * 4), 0x3D]"
| "base64Encode (a # b # c # bs) =
     [base64Char (unat a div 4), base64Char (unat a mod 4 * 16 + unat b div 16),
      base64Char (unat b mod 16 * 4 + unat c div 64), base64Char (unat c mod 64)]
     @ base64Encode bs"

definition btoa :: "jsstring \<Rightarrow> jsstring option" where
  "btoa s = (if list_all (\<lambda>c. c \<le> 0xFF) s then Some (base64Encode (map ucast s)) else None)"

text \<open>
  \<^verbatim>\<open>atob\<close> is the forgiving Base64 decoding of the Infra standard: ASCII whitespace
  is removed; one or two \<^verbatim>\<open>=\<close> at the end of a text whose length is a multiple of
  4 are removed; a length of 1 modulo 4 or a character outside the alphabet makes it
  throw (\<open>None\<close>); every four characters give three bytes, and two or three left-over
  characters give one or two bytes. \<open>base64Value\<close> is 64 outside the alphabet.
\<close>

definition isAsciiWhitespace :: "16 word \<Rightarrow> bool" where
  "isAsciiWhitespace c = (c \<in> {0x9, 0xA, 0xC, 0xD, 0x20})"

definition base64Value :: "16 word \<Rightarrow> nat" where
  "base64Value c =
     (if 0x41 \<le> c \<and> c \<le> 0x5A then unat c - 0x41
      else if 0x61 \<le> c \<and> c \<le> 0x7A then unat c - 0x61 + 26
      else if 0x30 \<le> c \<and> c \<le> 0x39 then unat c - 0x30 + 52
      else if c = 0x2B then 62
      else if c = 0x2F then 63
      else 64)"

definition removePadding :: "jsstring \<Rightarrow> jsstring" where
  "removePadding d =
     (if length d mod 4 = 0 then
        (if 2 \<le> length d \<and> last d = 0x3D \<and> last (butlast d) = 0x3D then butlast (butlast d)
         else if d \<noteq> [] \<and> last d = 0x3D then butlast d
         else d)
      else d)"

fun base64Decode :: "nat list \<Rightarrow> 8 word list" where
  "base64Decode (p # q # r # s # rest) =
     [of_nat (p * 4 + q div 16), of_nat (q mod 16 * 16 + r div 4), of_nat (r mod 4 * 64 + s)]
     @ base64Decode rest"
| "base64Decode [p, q, r] = [of_nat (p * 4 + q div 16), of_nat (q mod 16 * 16 + r div 4)]"
| "base64Decode [p, q] = [of_nat (p * 4 + q div 16)]"
| "base64Decode [p] = []"
| "base64Decode [] = []"

definition atob :: "jsstring \<Rightarrow> jsstring option" where
  "atob data =
     (let d = removePadding (filter (\<lambda>c. \<not> isAsciiWhitespace c) data)
      in if length d mod 4 = 1 then None
         else if list_ex (\<lambda>c. base64Value c = 64) d then None
         else Some (map ucast (base64Decode (map base64Value d))))"

subsection \<open>The codec\<close>

text \<open>
  \<^verbatim>\<open>makeEventKey\<close>: the JSON text of the payload, its UTF-8 bytes, one character
  per byte (\<^verbatim>\<open>String.fromCharCode\<close>), and \<^verbatim>\<open>btoa\<close> of that; it has no
  \<^verbatim>\<open>try\<close>, so it throws (\<open>None\<close>) when \<^verbatim>\<open>btoa\<close> does.
  \<^verbatim>\<open>readEventKey\<close>: \<^verbatim>\<open>atob\<close> of the trimmed key, one byte per character (a
  store into a \<^verbatim>\<open>Uint8Array\<close> keeps the low 8 bits), the text of the bytes, and
  \<^verbatim>\<open>JSON.parse\<close> of that; whatever throws gives null.
\<close>

definition makeEventKey :: "JSON \<Rightarrow> KeyPayload \<Rightarrow> jsstring option" where
  "makeEventKey J payload =
     (let enc = TextEncoder_encode (stringifyPayload J payload);
          bin = map ucast enc
      in btoa bin)"

definition readEventKey :: "JSON \<Rightarrow> jsstring \<Rightarrow> Payload option" where
  "readEventKey J key =
     (case atob (trim key) of
        None \<Rightarrow> None
      | Some bin \<Rightarrow>
          let bytes = map ucast bin;
              json = TextDecoder_decode bytes
          in parsePayload J json)"

text \<open>
  A string is well formed when it has no lone surrogate. \<^verbatim>\<open>JSON.stringify\<close> returns
  well-formed strings (it escapes lone surrogates), and the text of an object starts
  with a brace, not with the byte order mark U+FEFF. A payload is JSON-representable
  when its text is such a string and \<^verbatim>\<open>JSON.parse\<close> reads the payload back from it.
\<close>

fun wellFormed :: "jsstring \<Rightarrow> bool" where
  "wellFormed [] = True"
| "wellFormed [c] = (if isHighSurrogate c \<or> isLowSurrogate c then False else True)"
| "wellFormed (c # d # cs) =
     (if isHighSurrogate c then isLowSurrogate d \<and> wellFormed cs
      else if isLowSurrogate c then False
      else wellFormed (d # cs))"

definition representable :: "JSON \<Rightarrow> KeyPayload \<Rightarrow> bool" where
  "representable J p =
     (wellFormed (stringifyPayload J p) \<and> take 1 (stringifyPayload J p) \<noteq> [0xFEFF] \<and>
      parsePayload J (stringifyPayload J p)
        = Some \<lparr>payload_eid = Some (key_eid p), payload_state = key_state p\<rparr>)"

text \<open>The characters of a Base64 text before its padding.\<close>

fun base64Body :: "8 word list \<Rightarrow> jsstring" where
  "base64Body [] = []"
| "base64Body [a] = [base64Char (unat a div 4), base64Char (unat a mod 4 * 16)]"
| "base64Body [a, b] =
     [base64Char (unat a div 4), base64Char (unat a mod 4 * 16 + unat b div 16),
      base64Char (unat b mod 16 * 4)]"
| "base64Body (a # b # c # bs) =
     [base64Char (unat a div 4), base64Char (unat a mod 4 * 16 + unat b div 16),
      base64Char (unat b mod 16 * 4 + unat c div 64), base64Char (unat c mod 64)]
     @ base64Body bs"

text \<open>
  A scalar value is a code point that is not a surrogate. The payload of the example
  below has an identifier of a Chinese character and an emoji (a surrogate pair).
\<close>

definition isScalarValue :: "nat \<Rightarrow> bool" where
  "isScalarValue cp = (cp < 0xD800 \<or> (0xE000 \<le> cp \<and> cp < 0x110000))"


definition examplePayload :: KeyPayload where
  "examplePayload = \<lparr>key_eid = [0x4F60, 0xD83D, 0xDE00], key_state = exampleState (js ''Meet'')\<rparr>"

section \<open>Properties\<close>

subsection \<open>Points table selection\<close>

text \<open>
  Claim C10. With the preset Custom, an empty custom list selects the Simple table
  10, 7, 5, 3, 2, 1, and every custom list that is not empty is the table as it is.
\<close>

theorem pointsTable_custom:
  "pointsPreset state = Custom \<Longrightarrow>
   pointsTable state =
     (if pointsCustom state = [] then map Fin [10, 7, 5, 3, 2, 1] else pointsCustom state)"
  by (simp add: pointsTable_def SIMPLE_POINTS_def)

theorem pointsTable_custom_witness:
  "pointsPreset \<lparr>State.title = js ''Meet'', pointsPreset = Custom, pointsCustom = [],
      athletes = []\<rparr> = Custom \<and>
   pointsTable \<lparr>State.title = js ''Meet'', pointsPreset = Custom, pointsCustom = [],
      athletes = []\<rparr> = map Fin [10, 7, 5, 3, 2, 1] \<and>
   pointsTable \<lparr>State.title = js ''Meet'', pointsPreset = Custom, pointsCustom = [Fin 5, Fin 3],
      athletes = []\<rparr> = [Fin 5, Fin 3]"
  using pointsTable_custom [of "\<lparr>State.title = js ''Meet'', pointsPreset = Custom,
      pointsCustom = [], athletes = []\<rparr>"]
    pointsTable_custom [of "\<lparr>State.title = js ''Meet'', pointsPreset = Custom,
      pointsCustom = [Fin 5, Fin 3], athletes = []\<rparr>"]
  by simp

subsection \<open>Time parsing\<close>

lemma split_not_Nil: "split sep s \<noteq> []"
  by (cases s) simp_all

lemma trim_Nil: "trim [] = []"
  by (simp add: trim_def)

lemma parseTimeToSeconds_refines: "parseTimeToSeconds time = parseClockTime_spec time"
proof (cases "time = []")
  case True
  then show ?thesis
    by (simp add: parseTimeToSeconds_def parseClockTime_spec_def trim_Nil)
next
  case False
  obtain ps where ps: "map trim (split 0x3A time) = ps"
    by simp
  have "ps \<noteq> []"
    using ps split_not_Nil [of "0x3A" time] by auto
  then show ?thesis
    using False ps
    by (auto simp add: parseTimeToSeconds_def parseClockTime_spec_def isNaN_def Let_def
        split: list.splits)
qed

text \<open>
  Claim C7. For every input string the function is the one the specification words:
  one numeric part is the seconds, two are minutes and seconds, three are hours, minutes
  and seconds, and an empty or non-numeric part or a fourth part makes the string
  invalid. The three strings of the specification give 3723, 123 and 45.
\<close>

theorem parseTimeToSeconds_correct:
  "parseTimeToSeconds time = parseClockTime_spec time \<and>
   parseTimeToSeconds (js ''1:02:03'') = Some (Fin 3723) \<and>
   parseTimeToSeconds (js ''2:03'') = Some (Fin 123) \<and>
   parseTimeToSeconds (js ''45'') = Some (Fin 45)"
proof (intro conjI)
  show "parseTimeToSeconds time = parseClockTime_spec time"
    by (rule parseTimeToSeconds_refines)
  show "parseTimeToSeconds (js ''1:02:03'') = Some (Fin 3723)"
    by code_simp
  show "parseTimeToSeconds (js ''2:03'') = Some (Fin 123)"
    by code_simp
  show "parseTimeToSeconds (js ''45'') = Some (Fin 45)"
    by code_simp
qed

text \<open>
  Claim C8, as stated: the result for the empty string is distinct from the result for
  the malformed string \<^verbatim>\<open>1:xx\<close>. It is not: the two results are the same.
\<close>

theorem parseTimeToSeconds_empty_counterexample:
  "\<not> parseTimeToSeconds [] \<noteq> parseTimeToSeconds (js ''1:xx'')"
  by code_simp

text \<open>
  Claim C8, amended. The empty string and the malformed string \<^verbatim>\<open>1:xx\<close> both give
  null: the result of the function does not tell "no time entered" from "invalid".
\<close>

theorem parseTimeToSeconds_empty_null:
  "parseTimeToSeconds [] = None \<and> parseTimeToSeconds (js ''1:xx'') = None"
  by code_simp

subsection \<open>Rank-to-points allocation\<close>

lemma scoredFirst_iff:
  "scoredFirst rows \<longleftrightarrow>
   (\<forall>k l. k \<le> l \<and> l < length rows \<and> score (rows ! k) = None \<longrightarrow> score (rows ! l) = None)"
proof
  assume "scoredFirst rows"
  then have *: "\<And>k l. k < length rows \<Longrightarrow> score (rows ! k) = None \<Longrightarrow> k \<le> l \<Longrightarrow>
      l < length rows \<Longrightarrow> score (rows ! l) = None"
  proof -
    fix k l
    assume k: "k < length rows" "score (rows ! k) = None" "k \<le> l" "l < length rows"
    from \<open>scoredFirst rows\<close> have
      "\<forall>k\<in>set [0..<length rows]. if score (rows ! k) = None
          then \<forall>l\<in>set [k..<length rows]. score (rows ! l) = None else True"
      unfolding scoredFirst_def list_all_iff .
    moreover have "k \<in> set [0..<length rows]"
      using k(1) by simp
    ultimately have "if score (rows ! k) = None
          then \<forall>l\<in>set [k..<length rows]. score (rows ! l) = None else True"
      by (rule bspec)
    then have "\<forall>l\<in>set [k..<length rows]. score (rows ! l) = None"
      using k(2) by simp
    then show "score (rows ! l) = None"
      using k(3,4) by simp
  qed
  show "\<forall>k l. k \<le> l \<and> l < length rows \<and> score (rows ! k) = None \<longrightarrow> score (rows ! l) = None"
    using * by (meson le_less_trans)
next
  assume "\<forall>k l. k \<le> l \<and> l < length rows \<and> score (rows ! k) = None \<longrightarrow> score (rows ! l) = None"
  then show "scoredFirst rows"
    unfolding scoredFirst_def list_all_iff by auto
qed

lemma maximalRun_iff:
  "maximalRun rows a b \<longleftrightarrow>
   a < b \<and> b \<le> length rows \<and>
   (\<exists>cur. score (rows ! a) = Some cur \<and>
      (\<forall>k. a < k \<and> k < b \<longrightarrow> sameScore (score (rows ! k)) cur) \<and>
      (0 < a \<longrightarrow> \<not> sameScore (score (rows ! (a - 1))) cur) \<and>
      (b < length rows \<longrightarrow> \<not> sameScore (score (rows ! b)) cur))"
  unfolding maximalRun_def list_all_iff by (auto split: option.splits)

text \<open>The inner loop stops at the end of the run.\<close>

lemma runEnd_step:
  "j < length rows \<Longrightarrow> sameScore (score (rows ! j)) cur \<Longrightarrow>
   runEnd rows cur j = runEnd rows cur (j + 1)"
  by (subst runEnd.simps) simp

lemma runEnd_stop:
  "\<not> (j < length rows \<and> sameScore (score (rows ! j)) cur) \<Longrightarrow> runEnd rows cur j = j"
  by (subst runEnd.simps) auto

lemma runEnd_le: "j \<le> length rows \<Longrightarrow> runEnd rows cur j \<le> length rows"
proof (induction rows cur j rule: runEnd.induct)
  case (1 rows cur j)
  show ?case
  proof (cases "j < length rows \<and> sameScore (score (rows ! j)) cur")
    case True
    with 1 show ?thesis by (simp add: runEnd_step)
  next
    case False
    with 1 show ?thesis by (simp add: runEnd_stop)
  qed
qed

lemma runEnd_same:
  "j \<le> k \<Longrightarrow> k < runEnd rows cur j \<Longrightarrow> sameScore (score (rows ! k)) cur"
proof (induction rows cur j rule: runEnd.induct)
  case (1 rows cur j)
  show ?case
  proof (cases "j < length rows \<and> sameScore (score (rows ! j)) cur")
    case True
    show ?thesis
    proof (cases "k = j")
      case True
      with \<open>j < length rows \<and> sameScore (score (rows ! j)) cur\<close> show ?thesis by simp
    next
      case False
      with 1 True show ?thesis by (simp add: runEnd_step)
    qed
  next
    case False
    with 1 show ?thesis by (simp add: runEnd_stop)
  qed
qed

lemma runEnd_eq:
  "j \<le> b \<Longrightarrow> b \<le> length rows \<Longrightarrow>
   (\<forall>k. j \<le> k \<and> k < b \<longrightarrow> sameScore (score (rows ! k)) cur) \<Longrightarrow>
   (b < length rows \<longrightarrow> \<not> sameScore (score (rows ! b)) cur) \<Longrightarrow>
   runEnd rows cur j = b"
proof (induction rows cur j rule: runEnd.induct)
  case (1 rows cur j)
  show ?case
  proof (cases "j = b")
    case True
    with 1(5) have "\<not> (j < length rows \<and> sameScore (score (rows ! j)) cur)" by auto
    then show ?thesis using True by (simp add: runEnd_stop)
  next
    case False
    with 1(2,3) have jb: "j < b" "j < length rows" by auto
    with 1(4) have same: "sameScore (score (rows ! j)) cur" by auto
    then have "runEnd rows cur j = runEnd rows cur (j + 1)"
      using jb by (simp add: runEnd_step)
    moreover have "runEnd rows cur (j + 1) = b"
      using 1(1) [OF conjI [OF jb(2) same]] jb 1(3,4,5) by auto
    ultimately show ?thesis by simp
  qed
qed

text \<open>What a block of assignments leaves in the result.\<close>

lemma assignAll_upt_Suc:
  "i \<le> j \<Longrightarrow>
   assignAll rows i (Suc j) v res = setProperty (assignAll rows i j v res) (id' (rows ! j)) v"
  by (simp add: assignAll_def)

lemma assignAll_empty: "j \<le> i \<Longrightarrow> assignAll rows i j v res = res"
  by (simp add: assignAll_def)

lemma assignAll_apply:
  "assignAll rows i j v res x =
     (if x \<noteq> protoKey \<and> (\<exists>k. i \<le> k \<and> k < j \<and> id' (rows ! k) = x) then Some v else res x)"
proof (induction j)
  case 0
  then show ?case by (simp add: assignAll_empty)
next
  case (Suc j)
  show ?case
  proof (cases "i \<le> j")
    case True
    then show ?thesis
      using Suc by (auto simp add: assignAll_upt_Suc setProperty_def less_Suc_eq)
  next
    case False
    then show ?thesis by (auto simp add: assignAll_empty)
  qed
qed

text \<open>One iteration of the outer loop, and what the loop leaves untouched.\<close>

lemma allocLoop_done: "\<not> i < length rows \<Longrightarrow> allocLoop rows table i result = result"
  by (subst allocLoop.simps) simp

lemma allocLoop_null:
  "i < length rows \<Longrightarrow> score (rows ! i) = None \<Longrightarrow>
   allocLoop rows table i result = assignAll rows i (length rows) (Fin 0) result"
  by (subst allocLoop.simps) simp

lemma allocLoop_run:
  "i < length rows \<Longrightarrow> score (rows ! i) = Some cur \<Longrightarrow>
   allocLoop rows table i result =
     allocLoop rows table (runEnd rows cur (i + 1))
       (assignAll rows i (runEnd rows cur (i + 1))
          (runAverage table i (runEnd rows cur (i + 1))) result)"
  by (subst allocLoop.simps) (simp add: Let_def runAverage_def)

lemma allocLoop_frame:
  "x = protoKey \<or> (\<forall>k. i \<le> k \<and> k < length rows \<longrightarrow> id' (rows ! k) \<noteq> x) \<Longrightarrow>
   allocLoop rows table i res x = res x"
proof (induction rows table i res rule: allocLoop.induct)
  case (1 rows table i res)
  show ?case
  proof (cases "i < length rows")
    case False
    then show ?thesis by (simp add: allocLoop_done)
  next
    case True
    show ?thesis
    proof (cases "score (rows ! i)")
      case None
      with True 1(2) show ?thesis
        by (auto simp add: allocLoop_null assignAll_apply)
    next
      case (Some cur)
      let ?j = "runEnd rows cur (i + 1)"
      have ij: "i + 1 \<le> ?j" by (rule runEnd_ge)
      have "allocLoop rows table ?j (assignAll rows i ?j (runAverage table i ?j) res) x
            = assignAll rows i ?j (runAverage table i ?j) res x"
        using 1(1) [OF True Some refl refl refl] 1(2) ij
        by (auto simp add: runAverage_def)
      also have "\<dots> = res x"
        using 1(2) runEnd_le [of "i + 1" rows cur] True
        by (auto simp add: assignAll_apply)
      finally show ?thesis
        using True Some by (simp add: allocLoop_run)
    qed
  qed
qed

lemma allocLoop_dom:
  "dom (allocLoop rows table i res)
   = dom res \<union> ({id' (rows ! k) |k. i \<le> k \<and> k < length rows} - {protoKey})"
proof (induction rows table i res rule: allocLoop.induct)
  case (1 rows table i res)
  show ?case
  proof (cases "i < length rows")
    case False
    then show ?thesis by (auto simp add: allocLoop_done)
  next
    case True
    show ?thesis
    proof (cases "score (rows ! i)")
      case None
      with True show ?thesis
        by (auto simp add: allocLoop_null assignAll_apply dom_def)
    next
      case (Some cur)
      let ?j = "runEnd rows cur (i + 1)"
      have ij: "i + 1 \<le> ?j" by (rule runEnd_ge)
      have jn: "?j \<le> length rows" using True by (simp add: runEnd_le)
      have "dom (allocLoop rows table ?j (assignAll rows i ?j (runAverage table i ?j) res))
            = dom (assignAll rows i ?j (runAverage table i ?j) res)
              \<union> ({id' (rows ! k) |k. ?j \<le> k \<and> k < length rows} - {protoKey})"
        using 1(1) [OF True Some refl refl refl] by (simp add: runAverage_def)
      also have "dom (assignAll rows i ?j (runAverage table i ?j) res)
            = dom res \<union> ({id' (rows ! k) |k. i \<le> k \<and> k < ?j} - {protoKey})"
        by (auto simp add: assignAll_apply dom_def)
      also have "dom res \<union> ({id' (rows ! k) |k. i \<le> k \<and> k < ?j} - {protoKey})
              \<union> ({id' (rows ! k) |k. ?j \<le> k \<and> k < length rows} - {protoKey})
            = dom res \<union> ({id' (rows ! k) |k. i \<le> k \<and> k < length rows} - {protoKey})"
        using ij jn by (auto simp add: not_less)
      finally show ?thesis
        using True Some by (simp add: allocLoop_run)
    qed
  qed
qed


lemma allocLoop_unscored:
  "scoredFirst rows \<Longrightarrow> i \<le> k \<Longrightarrow> k < length rows \<Longrightarrow> score (rows ! k) = None \<Longrightarrow>
   id' (rows ! k) \<noteq> protoKey \<Longrightarrow>
   allocLoop rows table i res (id' (rows ! k)) = Some (Fin 0)"
proof (induction rows table i res rule: allocLoop.induct)
  case (1 rows table i res)
  from 1(3,4) have iless: "i < length rows" by simp
  show ?case
  proof (cases "score (rows ! i)")
    case None
    have "\<exists>l. i \<le> l \<and> l < length rows \<and> id' (rows ! l) = id' (rows ! k)"
      using 1(3,4) by blast
    then show ?thesis
      using iless None 1(6) by (simp add: allocLoop_null assignAll_apply)
  next
    case (Some cur)
    let ?j = "runEnd rows cur (i + 1)"
    have "?j \<le> k"
    proof (rule ccontr)
      assume "\<not> ?j \<le> k"
      then have kj: "k < ?j" by simp
      have "k \<noteq> i" using Some 1(5) by auto
      with 1(3) have "i + 1 \<le> k" by simp
      from runEnd_same [OF this kj] show False
        using 1(5) by (simp add: sameScore_def)
    qed
    then have "allocLoop rows table ?j (assignAll rows i ?j (runAverage table i ?j) res)
                 (id' (rows ! k)) = Some (Fin 0)"
      using 1(1) [OF iless Some refl refl refl] 1(2,4,5,6) by (simp add: runAverage_def)
    then show ?thesis
      using iless Some by (simp add: allocLoop_run)
  qed
qed

lemma distinct_ids:
  "distinct (map id' rows) \<Longrightarrow> k < length rows \<Longrightarrow> l < length rows \<Longrightarrow>
   id' (rows ! k) = id' (rows ! l) \<Longrightarrow> k = l"
  using nth_eq_iff_index_eq [of "map id' rows" k l] by simp

lemma allocLoop_award:
  "distinct (map id' rows) \<Longrightarrow> scoredFirst rows \<Longrightarrow> maximalRun rows a b \<Longrightarrow>
   i \<le> a \<Longrightarrow> a \<le> k \<Longrightarrow> k < b \<Longrightarrow> id' (rows ! k) \<noteq> protoKey \<Longrightarrow>
   allocLoop rows table i res (id' (rows ! k)) = Some (runAverage table a b)"
proof (induction rows table i res rule: allocLoop.induct)
  case (1 rows table i res)
  from 1(4) obtain cur where run: "a < b" "b \<le> length rows" "score (rows ! a) = Some cur"
    "\<forall>l. a < l \<and> l < b \<longrightarrow> sameScore (score (rows ! l)) cur"
    "0 < a \<longrightarrow> \<not> sameScore (score (rows ! (a - 1))) cur"
    "b < length rows \<longrightarrow> \<not> sameScore (score (rows ! b)) cur"
    unfolding maximalRun_iff by blast
  from run 1(5) have iless: "i < length rows" by simp
  have "score (rows ! i) \<noteq> None"
    using 1(3,5) run(1,2,3) unfolding scoredFirst_iff
    by (metis le_less_trans less_le_trans option.distinct(1) less_imp_le)
  then obtain c where c: "score (rows ! i) = Some c" by auto
  let ?j = "runEnd rows c (i + 1)"
  show ?case
  proof (cases "i = a")
    case True
    with c run(3) have cc: "c = cur" by simp
    have jb: "?j = b"
      using run True cc by (intro runEnd_eq) auto
    have frame: "allocLoop rows table b (assignAll rows a b (runAverage table a b) res)
                   (id' (rows ! k))
                 = assignAll rows a b (runAverage table a b) res (id' (rows ! k))"
    proof (rule allocLoop_frame, intro disjI2 allI impI)
      fix l assume l: "b \<le> l \<and> l < length rows"
      show "id' (rows ! l) \<noteq> id' (rows ! k)"
      proof
        assume "id' (rows ! l) = id' (rows ! k)"
        from distinct_ids [OF 1(2) _ _ this] l 1(7) run(2) show False by simp
      qed
    qed
    have "assignAll rows a b (runAverage table a b) res (id' (rows ! k))
          = Some (runAverage table a b)"
      using 1(6,7,8) by (auto simp add: assignAll_apply)
    with frame show ?thesis
      using iless c True jb by (simp add: allocLoop_run)
  next
    case False
    with 1(5) have ia: "i < a" by simp
    have "?j \<le> a"
    proof (rule ccontr)
      assume "\<not> ?j \<le> a"
      then have aj: "a < ?j" by simp
      from ia have "i + 1 \<le> a" by simp
      from runEnd_same [OF this aj] run(3) have eq: "cur \<noteq> NaN" "cur = c"
        by (auto simp add: sameScore_def strictEq_def)
      have "sameScore (score (rows ! (a - 1))) cur"
      proof (cases "a - 1 = i")
        case True
        then show ?thesis using c eq by (simp add: sameScore_def strictEq_def)
      next
        case False
        with ia have "i + 1 \<le> a - 1" by simp
        moreover have "a - 1 < ?j" using aj by simp
        ultimately have "sameScore (score (rows ! (a - 1))) c"
          by (rule runEnd_same)
        then show ?thesis using eq by simp
      qed
      with run(5) ia show False by simp
    qed
    then have "allocLoop rows table ?j (assignAll rows i ?j (runAverage table i ?j) res)
                 (id' (rows ! k)) = Some (runAverage table a b)"
      using 1(1) [OF iless c refl refl refl] 1(2,3,4,6,7,8) by (simp add: runAverage_def)
    then show ?thesis
      using iless c by (simp add: allocLoop_run)
  qed
qed

text \<open>
  On a table of finite numbers the share of a run is the arithmetic mean of the table
  values at its ranks.
\<close>

lemma sumPoints_finite:
  "a \<le> b \<Longrightarrow> sumPoints (map Fin t) a b = Fin (\<Sum>k\<leftarrow>[a..<b]. tableValue t k)"
proof (induction b)
  case 0
  then show ?case by (simp add: sumPoints_def)
next
  case (Suc b)
  show ?case
  proof (cases "a = Suc b")
    case True
    then show ?thesis by (simp add: sumPoints_def)
  next
    case False
    with Suc.prems have ab: "a \<le> b" by simp
    have "sumPoints (map Fin t) a (Suc b) = sumPoints (map Fin t) a b + tableAt (map Fin t) b"
      using ab by (simp add: sumPoints_def)
    also have "tableAt (map Fin t) b = Fin (tableValue t b)"
      by (simp add: tableAt_def tableValue_def)
    finally show ?thesis
      using Suc.IH [OF ab] ab by (simp add: plus_jsnum_def)
  qed
qed

lemma runAverage_finite:
  "a < b \<Longrightarrow>
   runAverage (map Fin t) a b = Fin ((\<Sum>k\<leftarrow>[a..<b]. tableValue t k) / real (b - a))"
  by (simp add: runAverage_def sumPoints_finite divide_jsnum_def)

lemmas alloc_eval = allocatePointsByRank_def runEnd_step runEnd_stop allocLoop_done allocLoop_null
  allocLoop_run sameScore_def strictEq_def runAverage_def sumPoints_def tableAt_def assignAll_def
  setProperty_def protoKey_def divide_jsnum_def plus_jsnum_def js_def

text \<open>
  For ids other than \<^verbatim>\<open>__proto__\<close>: when all unscored rows come after the scored ones, the
  keys of the mapping are the ids of the input, and every unscored row is mapped to 0,
  whatever the table is. (The ids need not be distinct for this.)
\<close>

lemma allocatePointsByRank_unscored_ids:
  "scoredFirst rows \<Longrightarrow>
   dom (allocatePointsByRank rows table) = id' ` set rows - {protoKey} \<and>
   (\<forall>r\<in>set rows. score r = None \<longrightarrow> id' r \<noteq> protoKey \<longrightarrow>
      allocatePointsByRank rows table (id' r) = Some (Fin 0))"
proof (intro conjI ballI impI)
  show "dom (allocatePointsByRank rows table) = id' ` set rows - {protoKey}"
    unfolding allocatePointsByRank_def allocLoop_dom
    by (auto simp add: in_set_conv_nth image_iff) (use nth_mem in blast)
next
  fix r assume sf: "scoredFirst rows" and r: "r \<in> set rows" "score r = None" "id' r \<noteq> protoKey"
  from r(1) obtain k where k: "k < length rows" "rows ! k = r"
    by (auto simp add: in_set_conv_nth)
  with r(2,3) have "score (rows ! k) = None" "id' (rows ! k) \<noteq> protoKey" by simp_all
  from allocLoop_unscored [OF sf _ k(1) this, of 0 table Map.empty] k(2)
  show "allocatePointsByRank rows table (id' r) = Some (Fin 0)"
    by (simp add: allocatePointsByRank_def)
qed

text \<open>
  Claim C5 says that the mapping contains every input id and maps every unscored entry
  to 0. For the two rows with the distinct ids \<^verbatim>\<open>a\<close> (score 7) and \<^verbatim>\<open>__proto__\<close> (no
  score), the scored row first, and the table 25, 18, 15, the mapping has the one key
  \<^verbatim>\<open>a\<close>: the assignment of line 55 for the unscored row stores nothing, and the mapping
  has no entry for its id.
\<close>

theorem allocatePointsByRank_proto_id:
  "distinct (map id' [\<lparr>id' = js ''a'', score = Some (Fin 7)\<rparr>,
      \<lparr>id' = js ''__proto__'', score = None\<rparr>]) \<and>
   score ([\<lparr>id' = js ''a'', score = Some (Fin 7)\<rparr>,
      \<lparr>id' = js ''__proto__'', score = None\<rparr>] ! 1) = None \<and>
   allocatePointsByRank [\<lparr>id' = js ''a'', score = Some (Fin 7)\<rparr>,
      \<lparr>id' = js ''__proto__'', score = None\<rparr>] [Fin 25, Fin 18, Fin 15] (js ''a'') = Some (Fin 25) \<and>
   allocatePointsByRank [\<lparr>id' = js ''a'', score = Some (Fin 7)\<rparr>,
      \<lparr>id' = js ''__proto__'', score = None\<rparr>] [Fin 25, Fin 18, Fin 15] (js ''__proto__'') = None \<and>
   dom (allocatePointsByRank [\<lparr>id' = js ''a'', score = Some (Fin 7)\<rparr>,
      \<lparr>id' = js ''__proto__'', score = None\<rparr>] [Fin 25, Fin 18, Fin 15]) = {js ''a''}"
  by (simp add: alloc_eval eval_nat_numeral dom_def)

text \<open>
  Claim C4, amended. For rows with pairwise distinct ids in which the scored rows come
  first (every list sorted descending by score is one), each member of a maximal run of
  identical scores whose id is not \<^verbatim>\<open>__proto__\<close> is awarded the average of the table
  values at the ranks of the run, with 0 for a rank beyond the table. The scores 10, 10,
  5 with the table 25, 18, 15 give 21.5, 21.5 and 15.
\<close>

theorem allocatePointsByRank_tied_ranks:
  "distinct (map id' rows) \<Longrightarrow> scoredFirst rows \<Longrightarrow> maximalRun rows a b \<Longrightarrow>
   a \<le> k \<Longrightarrow> k < b \<Longrightarrow> id' (rows ! k) \<noteq> protoKey \<Longrightarrow>
   allocatePointsByRank rows table (id' (rows ! k)) = Some (runAverage table a b)"
  unfolding allocatePointsByRank_def by (rule allocLoop_award) simp_all

theorem allocatePointsByRank_tied_ranks_witness:
  "distinct (map id' [\<lparr>id' = js ''a'', score = Some (Fin 10)\<rparr>,
      \<lparr>id' = js ''b'', score = Some (Fin 10)\<rparr>, \<lparr>id' = js ''c'', score = Some (Fin 5)\<rparr>]) \<and>
   sortedDescending [\<lparr>id' = js ''a'', score = Some (Fin 10)\<rparr>,
      \<lparr>id' = js ''b'', score = Some (Fin 10)\<rparr>, \<lparr>id' = js ''c'', score = Some (Fin 5)\<rparr>] \<and>
   maximalRun [\<lparr>id' = js ''a'', score = Some (Fin 10)\<rparr>,
      \<lparr>id' = js ''b'', score = Some (Fin 10)\<rparr>, \<lparr>id' = js ''c'', score = Some (Fin 5)\<rparr>] 0 2 \<and>
   maximalRun [\<lparr>id' = js ''a'', score = Some (Fin 10)\<rparr>,
      \<lparr>id' = js ''b'', score = Some (Fin 10)\<rparr>, \<lparr>id' = js ''c'', score = Some (Fin 5)\<rparr>] 2 3 \<and>
   js ''a'' \<noteq> protoKey \<and> js ''b'' \<noteq> protoKey \<and> js ''c'' \<noteq> protoKey \<and>
   allocatePointsByRank [\<lparr>id' = js ''a'', score = Some (Fin 10)\<rparr>,
      \<lparr>id' = js ''b'', score = Some (Fin 10)\<rparr>, \<lparr>id' = js ''c'', score = Some (Fin 5)\<rparr>]
      [Fin 25, Fin 18, Fin 15] (js ''a'') = Some (Fin 21.5) \<and>
   allocatePointsByRank [\<lparr>id' = js ''a'', score = Some (Fin 10)\<rparr>,
      \<lparr>id' = js ''b'', score = Some (Fin 10)\<rparr>, \<lparr>id' = js ''c'', score = Some (Fin 5)\<rparr>]
      [Fin 25, Fin 18, Fin 15] (js ''b'') = Some (Fin 21.5) \<and>
   allocatePointsByRank [\<lparr>id' = js ''a'', score = Some (Fin 10)\<rparr>,
      \<lparr>id' = js ''b'', score = Some (Fin 10)\<rparr>, \<lparr>id' = js ''c'', score = Some (Fin 5)\<rparr>]
      [Fin 25, Fin 18, Fin 15] (js ''c'') = Some (Fin 15)"
  using
    allocatePointsByRank_tied_ranks [of "[\<lparr>id' = js ''a'', score = Some (Fin 10)\<rparr>,
      \<lparr>id' = js ''b'', score = Some (Fin 10)\<rparr>, \<lparr>id' = js ''c'', score = Some (Fin 5)\<rparr>]"
      0 2 0 "[Fin 25, Fin 18, Fin 15]"]
    allocatePointsByRank_tied_ranks [of "[\<lparr>id' = js ''a'', score = Some (Fin 10)\<rparr>,
      \<lparr>id' = js ''b'', score = Some (Fin 10)\<rparr>, \<lparr>id' = js ''c'', score = Some (Fin 5)\<rparr>]"
      0 2 1 "[Fin 25, Fin 18, Fin 15]"]
    allocatePointsByRank_tied_ranks [of "[\<lparr>id' = js ''a'', score = Some (Fin 10)\<rparr>,
      \<lparr>id' = js ''b'', score = Some (Fin 10)\<rparr>, \<lparr>id' = js ''c'', score = Some (Fin 5)\<rparr>]"
      2 3 2 "[Fin 25, Fin 18, Fin 15]"]
  by (simp add: sortedDescending_def scoredFirst_def maximalRun_def jsGe_def sameScore_def
      strictEq_def runAverage_def sumPoints_def tableAt_def divide_jsnum_def plus_jsnum_def js_def
      protoKey_def eval_nat_numeral)

text \<open>
  Claim C4, as stated, asks for no distinct ids. With the id \<open>a\<close> on two rows of
  different scores, sorted descending, the first row is a maximal run due the 25 points
  of rank 1, but the mapping gives its id the 18 points of the second row.
\<close>

theorem allocatePointsByRank_duplicate_id_counterexample:
  "sortedDescending [\<lparr>id' = js ''a'', score = Some (Fin 10)\<rparr>,
      \<lparr>id' = js ''a'', score = Some (Fin 5)\<rparr>] \<and>
   maximalRun [\<lparr>id' = js ''a'', score = Some (Fin 10)\<rparr>,
      \<lparr>id' = js ''a'', score = Some (Fin 5)\<rparr>] 0 1 \<and>
   runAverage [Fin 25, Fin 18] 0 1 = Fin 25 \<and>
   allocatePointsByRank [\<lparr>id' = js ''a'', score = Some (Fin 10)\<rparr>,
      \<lparr>id' = js ''a'', score = Some (Fin 5)\<rparr>] [Fin 25, Fin 18]
      (id' ([\<lparr>id' = js ''a'', score = Some (Fin 10)\<rparr>,
          \<lparr>id' = js ''a'', score = Some (Fin 5)\<rparr>] ! 0)) \<noteq> Some (runAverage [Fin 25, Fin 18] 0 1) \<and>
   allocatePointsByRank [\<lparr>id' = js ''a'', score = Some (Fin 10)\<rparr>,
      \<lparr>id' = js ''a'', score = Some (Fin 5)\<rparr>] [Fin 25, Fin 18]
      (id' ([\<lparr>id' = js ''a'', score = Some (Fin 10)\<rparr>,
          \<lparr>id' = js ''a'', score = Some (Fin 5)\<rparr>] ! 0)) = Some (Fin 18)"
  by (simp add: sortedDescending_def scoredFirst_def maximalRun_def jsGe_def alloc_eval
      eval_nat_numeral)

subsection \<open>DOTS score\<close>

lemmas dots_eval = dotsPoints_def falsy_def jsLe_def jsGe_def DOTS_COEFF_def jpow_def
  plus_jsnum_def times_jsnum_def divide_jsnum_def isFinite_def strictEq_def Let_def

text \<open>
  What the function does on finite numbers: no score for a total of 0, for a bodyweight
  that is not positive and for the sex X; otherwise 600 over the polynomial, times the
  total, unless the polynomial is 0. The sign of the total is not looked at.
\<close>

lemma dotsPoints_finite:
  "dotsPoints (Some (Fin t)) (Some (Fin x)) sx =
     (if t = 0 \<or> x \<le> 0 \<or> sx = X then None
      else let p = dotsPolynomial (DOTS_COEFF (if sx = F then DOTS_F else DOTS_M)) x
           in if p = Fin 0 then None else Some (Fin 600 / p * Fin t))"
  by (cases sx) (simp_all add: dots_eval dotsPolynomial_def)

text \<open>
  Claim C6 says that a total that is not greater than 0 gives no score. For a total of
  -100 kg at a bodyweight of 80 kg and sex M the function returns a score, a negative one.
\<close>

theorem dotsPoints_negative_total:
  "dotsPoints (Some (Fin (- 100))) (Some (Fin 80)) M =
     Some (Fin (- (390625000000000000 / 4768729605229501))) \<and>
   dotsPoints (Some (Fin (- 100))) (Some (Fin 80)) M \<noteq> None"
  by (simp add: dots_eval)

subsection \<open>Reconciliation of an imported event\<close>

text \<open>The key of the index is not the key of any event, and event keys tell identifiers apart.\<close>

lemma KEY_INDEX_not_eventKey: "KEY_INDEX \<noteq> eventKey e"
  by (simp add: KEY_INDEX_def eventKey_def KEY_EVENT_PREFIX_def js_def)


lemma getItem_saveEvent_other:
  "k \<noteq> eventKey e \<Longrightarrow> getItem (saveEvent J ls e st) k = getItem ls k"
  by (simp add: saveEvent_def setItem_def getItem_def)

lemma getItem_saveIndex_other:
  "k \<noteq> KEY_INDEX \<Longrightarrow> getItem (saveIndex J ls list) k = getItem ls k"
  by (simp add: saveIndex_def setItem_def getItem_def)

lemma getItem_saveEvent_same:
  "fits ls ((items ls)(eventKey e \<mapsto> stringifyState J st)) \<Longrightarrow>
   getItem (saveEvent J ls e st) (eventKey e) = Some (stringifyState J st)"
  by (simp add: saveEvent_def setItem_def getItem_def)

lemma getItem_saveIndex_same:
  "fits ls ((items ls)(KEY_INDEX \<mapsto> stringifyIndex J list)) \<Longrightarrow>
   getItem (saveIndex J ls list) KEY_INDEX = Some (stringifyIndex J list)"
  by (simp add: saveIndex_def setItem_def getItem_def)

lemma fits_saveEvent: "fits (saveEvent J ls e st) = fits ls"
  by (simp add: saveEvent_def setItem_def)


text \<open>
  Claim C2. When the snapshot that loads under the identifier serialises to the same
  text as the incoming one, the import returns the local copy and changes neither the
  storage nor the index. So, for an identifier with nothing stored under it, a storage
  that accepts the write and a snapshot that JSON reads back as it was written, the
  first import stores one event with one index entry and a second import of the same
  payload changes nothing.
\<close>

theorem addOrForkEvent_same_content:
  "(loadEvent J (localStorage w) e = Some ex \<and> stringifyState J ex = stringifyState J s \<longrightarrow>
      addOrForkEvent J index uuid1 uuid2 now w \<lparr>payload_eid = Some e, payload_state = s\<rparr>
        = (\<lparr>imported_eid = e, imported_state = ex\<rparr>, w)) \<and>
   (loadEvent J (localStorage w) e = None \<and>
    fits (localStorage w) ((items (localStorage w))(eventKey e \<mapsto> stringifyState J s)) \<and>
    stringifyState J s \<noteq> [] \<and> parseState J (stringifyState J s) = Some s' \<and>
    stringifyState J s' = stringifyState J s \<longrightarrow>
      (case addOrForkEvent J index uuid1 uuid2 now w \<lparr>payload_eid = Some e, payload_state = s\<rparr> of
         (r1, w1) \<Rightarrow>
           indexState w1 = \<lparr>eid = e, title = State.title s, createdAt = now, updatedAt = now\<rparr> # index \<and>
           loadEvent J (localStorage w1) e = Some s' \<and>
           addOrForkEvent J index' uuid1' uuid2' now' w1 \<lparr>payload_eid = Some e, payload_state = s\<rparr>
             = (\<lparr>imported_eid = e, imported_state = s'\<rparr>, w1)))"
proof (intro conjI impI)
  assume "loadEvent J (localStorage w) e = Some ex \<and> stringifyState J ex = stringifyState J s"
  then show "addOrForkEvent J index uuid1 uuid2 now w \<lparr>payload_eid = Some e, payload_state = s\<rparr>
        = (\<lparr>imported_eid = e, imported_state = ex\<rparr>, w)"
    by (simp add: addOrForkEvent_def)
next
  assume a: "loadEvent J (localStorage w) e = None \<and>
    fits (localStorage w) ((items (localStorage w))(eventKey e \<mapsto> stringifyState J s)) \<and>
    stringifyState J s \<noteq> [] \<and> parseState J (stringifyState J s) = Some s' \<and>
    stringifyState J s' = stringifyState J s"
  let ?meta = "\<lparr>eid = e, title = State.title s, createdAt = now, updatedAt = now\<rparr>"
  let ?ls1 = "saveEvent J (localStorage w) e s"
  let ?ls2 = "saveIndex J ?ls1 (?meta # index)"
  let ?w1 = "\<lparr>localStorage = ?ls2, indexState = ?meta # index\<rparr>"
  have first: "addOrForkEvent J index uuid1 uuid2 now w \<lparr>payload_eid = Some e, payload_state = s\<rparr>
      = (\<lparr>imported_eid = e, imported_state = s\<rparr>, ?w1)"
    using a by (simp add: addOrForkEvent_def Let_def)
  have "getItem ?ls2 (eventKey e) = Some (stringifyState J s)"
    using a KEY_INDEX_not_eventKey [of e]
    by (simp add: getItem_saveIndex_other getItem_saveEvent_same)
  then have load: "loadEvent J ?ls2 e = Some s'"
    using a by (simp add: loadEvent_def)
  then have second: "addOrForkEvent J index' uuid1' uuid2' now' ?w1
      \<lparr>payload_eid = Some e, payload_state = s\<rparr> = (\<lparr>imported_eid = e, imported_state = s'\<rparr>, ?w1)"
    using a by (simp add: addOrForkEvent_def)
  show "case addOrForkEvent J index uuid1 uuid2 now w \<lparr>payload_eid = Some e, payload_state = s\<rparr> of
         (r1, w1) \<Rightarrow>
           indexState w1 = ?meta # index \<and>
           loadEvent J (localStorage w1) e = Some s' \<and>
           addOrForkEvent J index' uuid1' uuid2' now' w1 \<lparr>payload_eid = Some e, payload_state = s\<rparr>
             = (\<lparr>imported_eid = e, imported_state = s'\<rparr>, w1)"
    unfolding first using load second by simp
qed

lemmas example_eval = exampleJSON_def exampleWorld_def exampleStorage_def exampleState_def
  loadEvent_def getItem_def eventKey_def KEY_EVENT_PREFIX_def js_def

theorem addOrForkEvent_same_content_witness:
  "loadEvent exampleJSON (localStorage exampleWorld) (js ''e1'') = Some (exampleState (js ''Meet'')) \<and>
   addOrForkEvent exampleJSON [] (js ''u1'') (js ''u2'') 5 exampleWorld
       \<lparr>payload_eid = Some (js ''e1''), payload_state = exampleState (js ''Meet'')\<rparr>
     = (\<lparr>imported_eid = js ''e1'', imported_state = exampleState (js ''Meet'')\<rparr>, exampleWorld) \<and>
   loadEvent exampleJSON (localStorage exampleWorld) (js ''e2'') = None \<and>
   (case addOrForkEvent exampleJSON [] (js ''u1'') (js ''u2'') 5 exampleWorld
           \<lparr>payload_eid = Some (js ''e2''), payload_state = exampleState (js ''Cup'')\<rparr> of
      (r1, w1) \<Rightarrow>
        indexState w1 = [\<lparr>eid = js ''e2'', title = js ''Cup'', createdAt = 5, updatedAt = 5\<rparr>] \<and>
        loadEvent exampleJSON (localStorage w1) (js ''e2'') = Some (exampleState (js ''Cup'')) \<and>
        addOrForkEvent exampleJSON (indexState w1) (js ''u3'') (js ''u4'') 6 w1
            \<lparr>payload_eid = Some (js ''e2''), payload_state = exampleState (js ''Cup'')\<rparr>
          = (\<lparr>imported_eid = js ''e2'', imported_state = exampleState (js ''Cup'')\<rparr>, w1))"
  using
    addOrForkEvent_same_content [where J = exampleJSON and w = exampleWorld and e = "js ''e1''"
      and ex = "exampleState (js ''Meet'')" and s = "exampleState (js ''Meet'')" and index = "[]"
      and ?uuid1.0 = "js ''u1''" and ?uuid2.0 = "js ''u2''" and now = 5, THEN conjunct1]
    addOrForkEvent_same_content [where J = exampleJSON and w = exampleWorld and e = "js ''e2''"
      and s = "exampleState (js ''Cup'')" and s' = "exampleState (js ''Cup'')" and index = "[]"
      and ?uuid1.0 = "js ''u1''" and ?uuid2.0 = "js ''u2''" and now = 5
      and index' = "[\<lparr>eid = js ''e2'', title = js ''Cup'', createdAt = 5, updatedAt = 5\<rparr>]"
      and uuid1' = "js ''u3''" and uuid2' = "js ''u4''" and now' = 6, THEN conjunct2]
  by (simp add: example_eval split: prod.splits)




subsection \<open>Reading the URL fragment\<close>

text \<open>
  A match of the key pattern starts at \<^verbatim>\<open>#\<close> or \<^verbatim>\<open>&\<close> only, so the scan
  passes over a parameter that is not a \<open>k\<close> with a value.
\<close>

lemma matchKey_skip:
  "list_all (\<lambda>c. c \<noteq> 0x23 \<and> c \<noteq> 0x26) u \<Longrightarrow> matchKey (u @ r) = matchKey r"
  by (induction u) simp_all

lemma takeWhile_value:
  fixes v r :: jsstring
  assumes "list_all (\<lambda>c. c \<noteq> 0x23 \<and> c \<noteq> 0x26) v" and "r = [] \<or> hd r = 0x26"
  shows "takeWhile (\<lambda>d. d \<noteq> 0x26) (v @ r) = v"
proof -
  have "takeWhile (\<lambda>d. d \<noteq> 0x26) r = []"
    using assms(2) by (cases r) auto
  then show ?thesis
    using assms(1) by (induction v) auto
qed

lemma name_is_k:
  assumes "list_all (\<lambda>c. c \<noteq> 0x23 \<and> c \<noteq> 0x26 \<and> c \<noteq> 0x3D) n"
  shows "take 2 (n @ 0x3D # r) = js ''k='' \<longleftrightarrow> n = js ''k''"
proof (cases n)
  case Nil
  then show ?thesis by (simp add: js_def)
next
  case (Cons a n')
  then show ?thesis
    using assms by (cases n') (auto simp add: js_def)
qed

lemma matchKey_param:
  assumes "list_all (\<lambda>c. c \<noteq> 0x23 \<and> c \<noteq> 0x26 \<and> c \<noteq> 0x3D) n"
    and "list_all (\<lambda>c. c \<noteq> 0x23 \<and> c \<noteq> 0x26) v"
    and "r = [] \<or> hd r = 0x26"
    and "sep = 0x23 \<or> sep = 0x26"
  shows "matchKey (sep # n @ 0x3D # v @ r) = (if n = js ''k'' \<and> v \<noteq> [] then Some v else matchKey r)"
proof (cases "n = js ''k''")
  case True
  have "takeWhile (\<lambda>d. d \<noteq> 0x26) (v @ r) = v"
    using assms(2,3) by (rule takeWhile_value)
  moreover have "matchKey (n @ 0x3D # v @ r) = matchKey r"
    using matchKey_skip [of "n @ 0x3D # v" r] assms(1,2) True
    by (simp add: js_def)
  ultimately show ?thesis
    using True assms(4) by (auto simp add: js_def)
next
  case False
  have "take 2 (n @ 0x3D # v @ r) \<noteq> js ''k=''"
    using name_is_k [OF assms(1), of "v @ r"] False by simp
  moreover have "matchKey (n @ 0x3D # v @ r) = matchKey r"
    using matchKey_skip [of "n @ 0x3D # v" r] assms(1,2)
    by (auto simp add: list_all_iff)
  ultimately show ?thesis
    using False by simp
qed

lemma matchKey_joinParams:
  "list_all wellFormedParam ps \<Longrightarrow> sep = 0x23 \<or> sep = 0x26 \<Longrightarrow>
   matchKey (sep # joinParams ps) = firstKey ps"
proof (induction ps arbitrary: sep rule: joinParams.induct)
  case 1
  then show ?case by simp
next
  case (2 n v)
  then show ?case
    using matchKey_param [of n v "[]" sep] by (simp add: wellFormedParam_def)
next
  case (3 n v p ps)
  have "matchKey (sep # n @ 0x3D # v @ 0x26 # joinParams (p # ps))
        = (if n = js ''k'' \<and> v \<noteq> [] then Some v else matchKey (0x26 # joinParams (p # ps)))"
    using 3(2,3) matchKey_param [of n v "0x26 # joinParams (p # ps)" sep]
    by (simp add: wellFormedParam_def)
  moreover have "matchKey (0x26 # joinParams (p # ps)) = firstKey (p # ps)"
    using 3(1) [of "0x26"] 3(2) by simp
  ultimately show ?case by simp
qed

lemma matchKey_fragment:
  "list_all (\<lambda>c. c \<noteq> 0x23 \<and> c \<noteq> 0x26) base \<Longrightarrow> list_all wellFormedParam ps \<Longrightarrow>
   matchKey (base @ fragmentOf ps) = firstKey ps"
  using matchKey_skip [of base "fragmentOf ps"] matchKey_joinParams [of ps "0x23"]
  by (simp only: fragmentOf_def) simp

lemma matchEvent_prefix:
  "i \<noteq> [] \<Longrightarrow> list_all isEventIdChar i \<Longrightarrow> r = [] \<or> \<not> isEventIdChar (hd r) \<Longrightarrow>
   matchEvent (js ''event='' @ i @ r) = Some i"
proof -
  assume a: "i \<noteq> []" "list_all isEventIdChar i" "r = [] \<or> \<not> isEventIdChar (hd r)"
  have "takeWhile isEventIdChar r = []"
    using a(3) by (cases r) auto
  then have "takeWhile isEventIdChar (i @ r) = i"
    using a(2) by (induction i) auto
  then show ?thesis
    using a(1) by (simp add: js_def)
qed

text \<open>
  The identifier pattern needs \<^verbatim>\<open>event=\<close> followed by a letter, digit or hyphen. A text
  without \<^verbatim>\<open>=\<close>, followed by code units that are no letters, digits or hyphens (the
  padding of a Base64 text), has no match.
\<close>

lemma matchEvent_no_id:
  "list_all (\<lambda>c. \<not> isEventIdChar c) p \<Longrightarrow> matchEvent p = None"
proof (induction p)
  case Nil
  then show ?case by simp
next
  case (Cons c p)
  from Cons.prems have "c \<noteq> 0x65"
    by (auto simp add: isEventIdChar_def)
  then have "take 6 (c # p) \<noteq> js ''event=''"
    by (auto simp add: js_def)
  with Cons show ?case by simp
qed

lemma takeWhile_no_id:
  "list_all (\<lambda>c. \<not> isEventIdChar c) p \<Longrightarrow> takeWhile isEventIdChar (drop n p) = []"
proof -
  assume "list_all (\<lambda>c. \<not> isEventIdChar c) p"
  then have "list_all (\<lambda>c. \<not> isEventIdChar c) (drop n p)"
    by (auto simp add: list_all_iff dest: in_set_dropD)
  then show ?thesis
    by (cases "drop n p") auto
qed

lemma matchEvent_no_equals:
  "list_all (\<lambda>c. c \<noteq> 0x3D) t \<Longrightarrow> list_all (\<lambda>c. \<not> isEventIdChar c) p \<Longrightarrow>
   matchEvent (t @ p) = None"
proof (induction t)
  case Nil
  then show ?case by (simp add: matchEvent_no_id)
next
  case (Cons c t)
  have "\<not> (take 6 (c # t @ p) = js ''event='' \<and> takeWhile isEventIdChar (drop 6 (c # t @ p)) \<noteq> [])"
  proof
    assume m: "take 6 (c # t @ p) = js ''event='' \<and> takeWhile isEventIdChar (drop 6 (c # t @ p)) \<noteq> []"
    show False
    proof (cases "6 \<le> length (c # t)")
      case True
      then have "take 6 (c # t @ p) = take 6 (c # t)" by simp
      with m have e: "take 6 (c # t) = js ''event=''" by simp
      have "(0x3D :: 16 word) \<in> set (js ''event='')"
        by (simp add: js_def)
      then have "(0x3D :: 16 word) \<in> set (take 6 (c # t))"
        unfolding e .
      then have "(0x3D :: 16 word) \<in> set (c # t)"
        by (rule in_set_takeD)
      with Cons.prems(1) show False
        by (auto simp add: list_all_iff)
    next
      case False
      then have "drop 6 (c # t @ p) = drop (6 - length (c # t)) p"
        by simp
      with m takeWhile_no_id [OF Cons.prems(2)] show False
        by simp
    qed
  qed
  with Cons show ?case by simp
qed

text \<open>
  Claim C9, as stated, has the app that extracts the share token recognise the legacy
  fragment too. On \<^verbatim>\<open>#event=ab-12\<close> the boot of App.tsx finds no match at line 60 and
  returns at line 61, and \<^verbatim>\<open>extractKeyFromUrl\<close> returns null: no code of that app
  reads the identifier. The legacy fragment is read by \<^verbatim>\<open>initialEventId\<close> of the earlier
  single-file App, which in turn takes nothing from \<^verbatim>\<open>#k=QUJD\<close> and mints a new
  identifier.
\<close>

theorem fragment_legacy_counterexample:
  "importFromHash_key Some (js ''#event=ab-12'') = NoMatch \<and>
   extractKeyFromUrl Some (js ''#event=ab-12'') = None \<and>
   initialEventId (js ''#event=ab-12'') (js ''uuid'') = js ''ab-12'' \<and>
   initialEventId (js ''#k=QUJD'') (js ''uuid'') = js ''uuid''"
  by (simp add: importFromHash_key_def extractKeyFromUrl_def initialEventId_def isEventIdChar_def
      js_def)

text \<open>
  Claim C9, amended. On the fragment of a URL, whatever parameters stand before and
  after it, the boot of App.tsx (\<^verbatim>\<open>importFromHash\<close>) and \<^verbatim>\<open>extractKeyFromUrl\<close> take the
  value of the first parameter \<open>k\<close> that has one as the share token and hand it to
  \<^verbatim>\<open>decodeURIComponent\<close>; on the fragment \<^verbatim>\<open>#event=<id>\<close>, with an identifier of
  letters, digits and hyphens, they find no token and read no identifier. That fragment
  is read by \<^verbatim>\<open>initialEventId\<close> of the earlier single-file App only, which takes the
  identifier from it, and which on the fragment \<^verbatim>\<open>#k=<token>\<close>, the token without
  \<^verbatim>\<open>=\<close> before its padding, takes the new UUID.
\<close>

theorem fragment_recognition:
  "(list_all (\<lambda>c. c \<noteq> 0x23 \<and> c \<noteq> 0x26) base \<and> list_all wellFormedParam ps \<longrightarrow>
      importFromHash_key dec (fragmentOf ps)
        = (case firstKey ps of
             None \<Rightarrow> NoMatch
           | Some t \<Rightarrow> (case dec t of None \<Rightarrow> URIError | Some key \<Rightarrow> Key key)) \<and>
      extractKeyFromUrl dec (base @ fragmentOf ps)
        = (case firstKey ps of None \<Rightarrow> None | Some t \<Rightarrow> dec t)) \<and>
   (list_all (\<lambda>c. c \<noteq> 0x23 \<and> c \<noteq> 0x26) base \<and> list_all isEventIdChar i \<longrightarrow>
      importFromHash_key dec (js ''#event='' @ i) = NoMatch \<and>
      extractKeyFromUrl dec (base @ js ''#event='' @ i) = None) \<and>
   (i \<noteq> [] \<and> list_all isEventIdChar i \<and> (r = [] \<or> \<not> isEventIdChar (hd r)) \<longrightarrow>
      initialEventId (js ''#event='' @ i @ r) uuid = i) \<and>
   (list_all (\<lambda>c. c \<noteq> 0x3D) t \<and> list_all (\<lambda>c. c = 0x3D) pad \<longrightarrow>
      initialEventId (js ''#k='' @ t @ pad) uuid = uuid)"
proof (intro conjI impI)
  assume a: "list_all (\<lambda>c. c \<noteq> 0x23 \<and> c \<noteq> 0x26) base \<and> list_all wellFormedParam ps"
  from a have "matchKey (fragmentOf ps) = firstKey ps"
    using matchKey_fragment [of "[]" ps] by simp
  then show "importFromHash_key dec (fragmentOf ps)
        = (case firstKey ps of
             None \<Rightarrow> NoMatch
           | Some t \<Rightarrow> (case dec t of None \<Rightarrow> URIError | Some key \<Rightarrow> Key key))"
    by (simp add: importFromHash_key_def)
  from a have "matchKey (base @ fragmentOf ps) = firstKey ps"
    by (simp add: matchKey_fragment)
  then show "extractKeyFromUrl dec (base @ fragmentOf ps)
        = (case firstKey ps of None \<Rightarrow> None | Some t \<Rightarrow> dec t)"
    by (simp add: extractKeyFromUrl_def)
next
  assume c: "list_all (\<lambda>c. c \<noteq> 0x23 \<and> c \<noteq> 0x26) base \<and> list_all isEventIdChar i"
  have wf: "list_all wellFormedParam [(js ''event'', i)]"
    using c by (auto simp add: wellFormedParam_def isEventIdChar_def js_def list_all_iff)
  have fr: "js ''#event='' @ i = fragmentOf [(js ''event'', i)]"
    by (simp add: fragmentOf_def js_def)
  have nk: "firstKey [(js ''event'', i)] = None"
    by (simp add: js_def)
  show "importFromHash_key dec (js ''#event='' @ i) = NoMatch"
    unfolding fr using matchKey_fragment [OF _ wf, of "[]"] nk
    by (simp add: importFromHash_key_def)
  show "extractKeyFromUrl dec (base @ js ''#event='' @ i) = None"
    unfolding fr using matchKey_fragment [OF _ wf, of base] nk c
    by (simp add: extractKeyFromUrl_def)
next
  assume b: "i \<noteq> [] \<and> list_all isEventIdChar i \<and> (r = [] \<or> \<not> isEventIdChar (hd r))"
  then have "matchEvent (js ''event='' @ i @ r) = Some i"
    by (simp add: matchEvent_prefix)
  moreover have "js ''#event='' @ i @ r = 0x23 # js ''event='' @ i @ r"
    by (simp add: js_def)
  ultimately show "initialEventId (js ''#event='' @ i @ r) uuid = i"
    by (simp add: initialEventId_def)
next
  assume d: "list_all (\<lambda>c. c \<noteq> 0x3D) t \<and> list_all (\<lambda>c. c = 0x3D) pad"
  then have "list_all (\<lambda>c. \<not> isEventIdChar c) pad"
    by (auto simp add: list_all_iff isEventIdChar_def)
  with d have "matchEvent (t @ pad) = None"
    by (simp add: matchEvent_no_equals)
  then have "matchEvent (js ''k='' @ t @ pad) = None"
    by (simp add: js_def)
  moreover have "js ''#k='' @ t @ pad = 0x23 # js ''k='' @ t @ pad"
    by (simp add: js_def)
  ultimately show "initialEventId (js ''#k='' @ t @ pad) uuid = uuid"
    by (simp add: initialEventId_def)
qed

theorem fragment_recognition_witness:
  "list_all wellFormedParam [(js ''view'', js ''1''), (js ''k'', js ''QUJD''), (js ''z'', js ''2'')] \<and>
   importFromHash_key Some (js ''#view=1&k=QUJD&z=2'') = Key (js ''QUJD'') \<and>
   extractKeyFromUrl Some (js ''https://x.org/app#view=1&k=QUJD&z=2'') = Some (js ''QUJD'') \<and>
   list_all isEventIdChar (js ''ab-12'') \<and>
   importFromHash_key Some (js ''#event=ab-12'') = NoMatch \<and>
   extractKeyFromUrl Some (js ''https://x.org/app#event=ab-12'') = None \<and>
   initialEventId (js ''#event=ab-12'') (js ''uuid'') = js ''ab-12'' \<and>
   initialEventId (js ''#k=QUJDRA=='') (js ''uuid'') = js ''uuid''"
  using
    fragment_recognition [of "js ''https://x.org/app''"
      "[(js ''view'', js ''1''), (js ''k'', js ''QUJD''), (js ''z'', js ''2'')]" Some
      "js ''ab-12''" "[]" "js ''uuid''" "js ''QUJDRA''" "js ''==''"]
  by (simp add: fragmentOf_def wellFormedParam_def isEventIdChar_def js_def)

subsection \<open>Share codec\<close>

text \<open>Base64: the alphabet, the six-bit groups of three bytes, and the bytes back from them.\<close>

lemma base64_alphabet_table:
  "\<forall>n\<in>set [0..<64]. base64Value (base64Char n) = n \<and> base64Char n \<noteq> 0x3D
      \<and> \<not> isAsciiWhitespace (base64Char n) \<and> \<not> isWhiteSpace (base64Char n)"
  by code_simp

lemma base64Char_props:
  assumes "n < 64"
  shows "base64Value (base64Char n) = n" and "base64Char n \<noteq> 0x3D"
    and "\<not> isAsciiWhitespace (base64Char n)" and "\<not> isWhiteSpace (base64Char n)"
  using base64_alphabet_table assms by auto

lemma unat_byte: "unat (a :: 8 word) < 256"
  using unsigned_less [of a] by simp

lemma sextets:
  fixes a b c :: "8 word"
  shows "unat a div 4 < 64" and "unat a mod 4 * 16 + unat b div 16 < 64"
    and "unat b mod 16 * 4 + unat c div 64 < 64" and "unat c mod 64 < 64"
    and "unat a mod 4 * 16 < 64" and "unat b mod 16 * 4 < 64"
  using unat_byte [of a] unat_byte [of b] unat_byte [of c] by simp_all

lemma bytes_back:
  fixes a b c :: "8 word"
  shows "(of_nat (unat a div 4 * 4 + (unat a mod 4 * 16 + unat b div 16) div 16) :: 8 word) = a"
    and "(of_nat ((unat a mod 4 * 16 + unat b div 16) mod 16 * 16
            + (unat b mod 16 * 4 + unat c div 64) div 4) :: 8 word) = b"
    and "(of_nat ((unat b mod 16 * 4 + unat c div 64) mod 4 * 64 + unat c mod 64) :: 8 word) = c"
    and "(of_nat (unat a div 4 * 4 + (unat a mod 4 * 16) div 16) :: 8 word) = a"
    and "(of_nat ((unat a mod 4 * 16 + unat b div 16) mod 16 * 16
            + (unat b mod 16 * 4) div 4) :: 8 word) = b"
proof -
  have "unat a div 4 * 4 + (unat a mod 4 * 16 + unat b div 16) div 16 = unat a"
    using unat_byte [of b] by simp
  then show "(of_nat (unat a div 4 * 4 + (unat a mod 4 * 16 + unat b div 16) div 16) :: 8 word) = a"
    by simp
  have "(unat a mod 4 * 16 + unat b div 16) mod 16 * 16
            + (unat b mod 16 * 4 + unat c div 64) div 4 = unat b"
    using unat_byte [of b] unat_byte [of c] by simp
  then show "(of_nat ((unat a mod 4 * 16 + unat b div 16) mod 16 * 16
            + (unat b mod 16 * 4 + unat c div 64) div 4) :: 8 word) = b"
    by simp
  have "(unat b mod 16 * 4 + unat c div 64) mod 4 * 64 + unat c mod 64 = unat c"
    using unat_byte [of c] by simp
  then show "(of_nat ((unat b mod 16 * 4 + unat c div 64) mod 4 * 64 + unat c mod 64) :: 8 word) = c"
    by simp
  have "unat a div 4 * 4 + (unat a mod 4 * 16) div 16 = unat a"
    by simp
  then show "(of_nat (unat a div 4 * 4 + (unat a mod 4 * 16) div 16) :: 8 word) = a"
    by simp
  have "(unat a mod 4 * 16 + unat b div 16) mod 16 * 16 + (unat b mod 16 * 4) div 4 = unat b"
    using unat_byte [of b] by simp
  then show "(of_nat ((unat a mod 4 * 16 + unat b div 16) mod 16 * 16
            + (unat b mod 16 * 4) div 4) :: 8 word) = b"
    by simp
qed

text \<open>
  A Base64 text is its body followed by the padding; \<^verbatim>\<open>atob\<close> removes the padding
  and reads the bytes back from the body.
\<close>

lemma base64Encode_body:
  "base64Encode bs = base64Body bs @ replicate ((3 - length bs mod 3) mod 3) 0x3D"
proof (induction bs rule: base64Encode.induct)
  case (4 a b c bs)
  have "(3 - length (a # b # c # bs) mod 3) mod 3 = (3 - length bs mod 3) mod 3"
    by simp
  with 4 show ?case by simp
qed (simp_all add: numeral_2_eq_2)

lemma base64Body_alphabet:
  "list_all (\<lambda>c. base64Value c < 64 \<and> c \<noteq> 0x3D \<and> \<not> isAsciiWhitespace c \<and> \<not> isWhiteSpace c)
     (base64Body bs)"
  by (induction bs rule: base64Body.induct) (simp_all add: base64Char_props sextets)

lemma base64Body_length: "length (base64Body bs) = (4 * length bs + 2) div 3"
  by (induction bs rule: base64Body.induct) simp_all

lemma base64Decode_chars4:
  assumes "p < 64" and "q < 64" and "r < 64" and "s < 64"
  shows "base64Decode (map base64Value ([base64Char p, base64Char q, base64Char r, base64Char s] @ rest))
         = [of_nat (p * 4 + q div 16), of_nat (q mod 16 * 16 + r div 4), of_nat (r mod 4 * 64 + s)]
           @ base64Decode (map base64Value rest)"
  using assms by (simp only: list.map map_append append.simps base64Decode.simps
      base64Char_props(1))

lemma base64Decode_chars3:
  assumes "p < 64" and "q < 64" and "r < 64"
  shows "base64Decode (map base64Value [base64Char p, base64Char q, base64Char r])
         = [of_nat (p * 4 + q div 16), of_nat (q mod 16 * 16 + r div 4)]"
  using assms by (simp only: list.map base64Decode.simps base64Char_props(1))

lemma base64Decode_chars2:
  assumes "p < 64" and "q < 64"
  shows "base64Decode (map base64Value [base64Char p, base64Char q]) = [of_nat (p * 4 + q div 16)]"
  using assms by (simp only: list.map base64Decode.simps base64Char_props(1))

lemma base64Decode_body: "base64Decode (map base64Value (base64Body bs)) = bs"
proof (induction bs rule: base64Body.induct)
  case 1
  show ?case by simp
next
  case (2 a)
  show ?case
    unfolding base64Body.simps base64Decode_chars2 [OF sextets(1) sextets(5)] bytes_back(4) ..
next
  case (3 a b)
  show ?case
    unfolding base64Body.simps base64Decode_chars3 [OF sextets(1) sextets(2) sextets(6)]
      bytes_back(1) bytes_back(5) ..
next
  case (4 a b c bs)
  show ?case
    unfolding base64Body.simps
      base64Decode_chars4 [OF sextets(1) sextets(2) sextets(3) sextets(4)]
      bytes_back(1) bytes_back(2) bytes_back(3) 4 by simp
qed


lemma last_base64Body:
  "bs \<noteq> [] \<Longrightarrow> base64Body bs \<noteq> [] \<and> last (base64Body bs) \<noteq> 0x3D"
proof -
  assume "bs \<noteq> []"
  then have ne: "base64Body bs \<noteq> []"
    by (cases bs rule: base64Body.cases) simp_all
  then have "last (base64Body bs) \<in> set (base64Body bs)"
    by simp
  then show ?thesis
    using ne base64Body_alphabet [of bs] by (auto simp add: list_all_iff)
qed

lemma base64Encode_length: "length (base64Encode bs) mod 4 = 0"
  by (induction bs rule: base64Encode.induct) simp_all

lemma removePadding_base64Encode: "removePadding (base64Encode bs) = base64Body bs"
proof (cases "bs = []")
  case True
  then show ?thesis by (simp add: removePadding_def)
next
  case False
  note len = base64Encode_length [of bs]
  note body = last_base64Body [OF False]
  consider "length bs mod 3 = 0" | "length bs mod 3 = 1" | "length bs mod 3 = 2"
    by linarith
  then show ?thesis
  proof cases
    case 1
    then have enc: "base64Encode bs = base64Body bs"
      by (simp add: base64Encode_body)
    show ?thesis
      using len body unfolding enc by (simp add: removePadding_def)
  next
    case 2
    have "replicate 2 (0x3D :: 16 word) = [0x3D, 0x3D]"
      by (simp add: numeral_2_eq_2)
    with 2 have enc: "base64Encode bs = base64Body bs @ [0x3D, 0x3D]"
      by (simp add: base64Encode_body)
    show ?thesis
      using len body unfolding enc by (simp add: removePadding_def butlast_append)
  next
    case 3
    then have enc: "base64Encode bs = base64Body bs @ [0x3D]"
      by (simp add: base64Encode_body)
    show ?thesis
      using len body unfolding enc by (simp add: removePadding_def butlast_append)
  qed
qed


lemma base64Encode_no_whitespace:
  "list_all (\<lambda>c. \<not> isAsciiWhitespace c \<and> \<not> isWhiteSpace c) (base64Encode bs)"
proof -
  have "\<not> isAsciiWhitespace (0x3D :: 16 word)" "\<not> isWhiteSpace (0x3D :: 16 word)"
    by (simp_all add: isAsciiWhitespace_def isWhiteSpace_def)
  then show ?thesis
    using base64Body_alphabet [of bs]
    by (auto simp add: base64Encode_body list_all_iff)
qed

lemma base64Body_length_mod: "length (base64Body bs) mod 4 \<noteq> 1"
  unfolding base64Body_length by presburger

lemma atob_base64Encode: "atob (base64Encode bs) = Some (map ucast bs)"
proof -
  have "filter (\<lambda>c. \<not> isAsciiWhitespace c) (base64Encode bs) = base64Encode bs"
    using base64Encode_no_whitespace [of bs] by (simp add: list_all_iff)
  moreover have "\<not> list_ex (\<lambda>c. base64Value c = 64) (base64Body bs)"
    using base64Body_alphabet [of bs] by (force simp add: list_all_iff list_ex_iff)
  ultimately show ?thesis
    using base64Body_length_mod [of bs]
    by (simp add: atob_def removePadding_base64Encode base64Decode_body)
qed

lemma trim_no_whitespace:
  "list_all (\<lambda>c. \<not> isWhiteSpace c) s \<Longrightarrow> trim s = s"
proof -
  assume a: "list_all (\<lambda>c. \<not> isWhiteSpace c) s"
  have *: "\<And>t. list_all (\<lambda>c. \<not> isWhiteSpace c) t \<Longrightarrow> dropWhile isWhiteSpace t = t"
    by (case_tac t) simp_all
  have "dropWhile isWhiteSpace (rev s) = rev s"
    using a by (intro *) simp
  then show ?thesis
    using a by (simp add: trim_def *)
qed

lemma ucast_byte_char: "(ucast (ucast (b :: 8 word) :: 16 word) :: 8 word) = b"
  by (simp add: ucast_up_ucast_id is_up)

lemma byte_char_le: "(ucast (b :: 8 word) :: 16 word) \<le> 0xFF"
proof -
  have "unat (ucast b :: 16 word) = unat b"
    using unat_byte [of b] by (simp add: unsigned_ucast_eq take_bit_nat_eq_self)
  then show ?thesis
    using unat_byte [of b] by (simp add: word_le_nat_alt)
qed

lemma btoa_bytes: "btoa (map ucast (bs :: 8 word list)) = Some (base64Encode bs)"
proof -
  have "map (ucast :: 16 word \<Rightarrow> 8 word) (map ucast bs) = bs"
    by (simp add: ucast_byte_char comp_def)
  then show ?thesis
    by (simp add: btoa_def list_all_iff byte_char_le)
qed

lemma transport_bytes:
  "\<exists>key. btoa (map ucast (bs :: 8 word list)) = Some key \<and>
      atob (trim key) = Some (map ucast bs) \<and>
      map (ucast :: 16 word \<Rightarrow> 8 word) (map ucast bs) = bs"
proof -
  have "trim (base64Encode bs) = base64Encode bs"
    using base64Encode_no_whitespace [of bs] by (intro trim_no_whitespace) (simp add: list_all_iff)
  then show ?thesis
    by (simp add: btoa_bytes atob_base64Encode ucast_byte_char comp_def)
qed

text \<open>
  UTF-8: the decoder, started in its initial state on the bytes of a scalar value,
  gives that value and is in its initial state again.
\<close>

lemma unat_of_nat_byte: "n < 256 \<Longrightarrow> unat (of_nat n :: 8 word) = n"
  by (simp add: unat_of_nat)

lemma utf8Decode_ascii:
  "unat b \<le> 0x7F \<Longrightarrow> utf8Decode utf8Initial (b # bs) = unat b # utf8Decode utf8Initial bs"
  by (subst utf8Decode.simps) (simp add: utf8Initial_def)

lemma utf8Decode_lead2:
  "0xC2 \<le> unat b \<Longrightarrow> unat b \<le> 0xDF \<Longrightarrow>
   utf8Decode utf8Initial (b # bs)
     = utf8Decode \<lparr>codePoint = unat b mod 0x20, bytesSeen = 0, bytesNeeded = 1,
                    lowerBoundary = 0x80, upperBoundary = 0xBF\<rparr> bs"
  by (subst utf8Decode.simps) (simp add: utf8Initial_def)

lemma utf8Decode_lead3:
  "0xE0 \<le> unat b \<Longrightarrow> unat b \<le> 0xEF \<Longrightarrow>
   utf8Decode utf8Initial (b # bs)
     = utf8Decode \<lparr>codePoint = unat b mod 0x10, bytesSeen = 0, bytesNeeded = 2,
                    lowerBoundary = (if unat b = 0xE0 then 0xA0 else 0x80),
                    upperBoundary = (if unat b = 0xED then 0x9F else 0xBF)\<rparr> bs"
  by (subst utf8Decode.simps) (simp add: utf8Initial_def)

lemma utf8Decode_lead4:
  "0xF0 \<le> unat b \<Longrightarrow> unat b \<le> 0xF4 \<Longrightarrow>
   utf8Decode utf8Initial (b # bs)
     = utf8Decode \<lparr>codePoint = unat b mod 0x8, bytesSeen = 0, bytesNeeded = 3,
                    lowerBoundary = (if unat b = 0xF0 then 0x90 else 0x80),
                    upperBoundary = (if unat b = 0xF4 then 0x8F else 0xBF)\<rparr> bs"
  by (subst utf8Decode.simps) (simp add: utf8Initial_def)

lemma utf8Decode_last:
  "lo \<le> unat b \<Longrightarrow> unat b \<le> hi \<Longrightarrow> seen + 1 = needed \<Longrightarrow>
   utf8Decode \<lparr>codePoint = cp, bytesSeen = seen, bytesNeeded = needed,
                 lowerBoundary = lo, upperBoundary = hi\<rparr> (b # bs)
     = (cp * 0x40 + unat b mod 0x40) # utf8Decode utf8Initial bs"
  by (subst utf8Decode.simps) auto

lemma utf8Decode_cont:
  "lo \<le> unat b \<Longrightarrow> unat b \<le> hi \<Longrightarrow> seen + 1 < needed \<Longrightarrow>
   utf8Decode \<lparr>codePoint = cp, bytesSeen = seen, bytesNeeded = needed,
                 lowerBoundary = lo, upperBoundary = hi\<rparr> (b # bs)
     = utf8Decode \<lparr>codePoint = cp * 0x40 + unat b mod 0x40, bytesSeen = seen + 1,
                    bytesNeeded = needed, lowerBoundary = 0x80, upperBoundary = 0xBF\<rparr> bs"
  by (subst utf8Decode.simps) auto

lemma mod_offset:
  "x < 32 \<Longrightarrow> (0xC0 + x) mod 0x20 = (x :: nat)"
  "y < 64 \<Longrightarrow> (0x80 + y) mod 0x40 = (y :: nat)"
  "x < 16 \<Longrightarrow> (0xE0 + x) mod 0x10 = (x :: nat)"
  "x \<le> 4 \<Longrightarrow> (0xF0 + x) mod 0x8 = (x :: nat)"
  by (subst mod_add_eq [symmetric], simp)+

lemma utf8Decode_seq2:
  assumes "unat b1 = 0xC0 + x" and "unat b2 = 0x80 + y" and "2 \<le> x" and "x < 32" and "y < 64"
  shows "utf8Decode utf8Initial (b1 # b2 # rest) = (x * 0x40 + y) # utf8Decode utf8Initial rest"
proof -
  have "utf8Decode utf8Initial (b1 # b2 # rest)
        = utf8Decode \<lparr>codePoint = unat b1 mod 0x20, bytesSeen = 0, bytesNeeded = 1,
                    lowerBoundary = 0x80, upperBoundary = 0xBF\<rparr> (b2 # rest)"
    using assms by (intro utf8Decode_lead2) simp_all
  also have "\<dots> = (unat b1 mod 0x20 * 0x40 + unat b2 mod 0x40) # utf8Decode utf8Initial rest"
    using assms by (intro utf8Decode_last) simp_all
  also have "unat b1 mod 0x20 * 0x40 + unat b2 mod 0x40 = x * 0x40 + y"
  proof -
    have "(0xC0 + x) mod 0x20 = x" "(0x80 + y) mod 0x40 = y"
      using assms(4,5) by (simp_all add: mod_offset)
    then show ?thesis
      unfolding assms(1,2) by simp
  qed
  finally show ?thesis .
qed

lemma utf8Decode_seq3:
  assumes "unat b1 = 0xE0 + x" and "unat b2 = 0x80 + y" and "unat b3 = 0x80 + z"
    and "x < 16" and "y < 64" and "z < 64"
    and "x = 0 \<longrightarrow> 32 \<le> y" and "x = 13 \<longrightarrow> y < 32"
  shows "utf8Decode utf8Initial (b1 # b2 # b3 # rest)
         = ((x * 0x40 + y) * 0x40 + z) # utf8Decode utf8Initial rest"
proof -
  have "utf8Decode utf8Initial (b1 # b2 # b3 # rest)
        = utf8Decode \<lparr>codePoint = unat b1 mod 0x10, bytesSeen = 0, bytesNeeded = 2,
                    lowerBoundary = (if unat b1 = 0xE0 then 0xA0 else 0x80),
                    upperBoundary = (if unat b1 = 0xED then 0x9F else 0xBF)\<rparr> (b2 # b3 # rest)"
    using assms by (intro utf8Decode_lead3) simp_all
  also have "\<dots> = utf8Decode \<lparr>codePoint = unat b1 mod 0x10 * 0x40 + unat b2 mod 0x40,
                    bytesSeen = 0 + 1, bytesNeeded = 2,
                    lowerBoundary = 0x80, upperBoundary = 0xBF\<rparr> (b3 # rest)"
    using assms by (intro utf8Decode_cont) auto
  also have "\<dots> = ((unat b1 mod 0x10 * 0x40 + unat b2 mod 0x40) * 0x40 + unat b3 mod 0x40)
                   # utf8Decode utf8Initial rest"
    using assms by (intro utf8Decode_last) simp_all
  also have "(unat b1 mod 0x10 * 0x40 + unat b2 mod 0x40) * 0x40 + unat b3 mod 0x40
             = (x * 0x40 + y) * 0x40 + z"
  proof -
    have "(0xE0 + x) mod 0x10 = x" "(0x80 + y) mod 0x40 = y" "(0x80 + z) mod 0x40 = z"
      using assms(4,5,6) by (simp_all add: mod_offset)
    then show ?thesis
      unfolding assms(1,2,3) by simp
  qed
  finally show ?thesis .
qed

lemma utf8Decode_seq4:
  assumes "unat b1 = 0xF0 + x" and "unat b2 = 0x80 + y" and "unat b3 = 0x80 + z"
    and "unat b4 = 0x80 + u"
    and "x \<le> 4" and "y < 64" and "z < 64" and "u < 64"
    and "x = 0 \<longrightarrow> 16 \<le> y" and "x = 4 \<longrightarrow> y < 16"
  shows "utf8Decode utf8Initial (b1 # b2 # b3 # b4 # rest)
         = (((x * 0x40 + y) * 0x40 + z) * 0x40 + u) # utf8Decode utf8Initial rest"
proof -
  have "utf8Decode utf8Initial (b1 # b2 # b3 # b4 # rest)
        = utf8Decode \<lparr>codePoint = unat b1 mod 0x8, bytesSeen = 0, bytesNeeded = 3,
                    lowerBoundary = (if unat b1 = 0xF0 then 0x90 else 0x80),
                    upperBoundary = (if unat b1 = 0xF4 then 0x8F else 0xBF)\<rparr>
            (b2 # b3 # b4 # rest)"
    using assms by (intro utf8Decode_lead4) simp_all
  also have "\<dots> = utf8Decode \<lparr>codePoint = unat b1 mod 0x8 * 0x40 + unat b2 mod 0x40,
                    bytesSeen = 0 + 1, bytesNeeded = 3,
                    lowerBoundary = 0x80, upperBoundary = 0xBF\<rparr> (b3 # b4 # rest)"
    using assms by (intro utf8Decode_cont) auto
  also have "\<dots> = utf8Decode
        \<lparr>codePoint = (unat b1 mod 0x8 * 0x40 + unat b2 mod 0x40) * 0x40 + unat b3 mod 0x40,
         bytesSeen = 0 + 1 + 1, bytesNeeded = 3,
         lowerBoundary = 0x80, upperBoundary = 0xBF\<rparr> (b4 # rest)"
    using assms by (intro utf8Decode_cont) simp_all
  also have "\<dots> = (((unat b1 mod 0x8 * 0x40 + unat b2 mod 0x40) * 0x40 + unat b3 mod 0x40) * 0x40
                    + unat b4 mod 0x40) # utf8Decode utf8Initial rest"
    using assms by (intro utf8Decode_last) simp_all
  also have "((unat b1 mod 0x8 * 0x40 + unat b2 mod 0x40) * 0x40 + unat b3 mod 0x40) * 0x40
                    + unat b4 mod 0x40
             = ((x * 0x40 + y) * 0x40 + z) * 0x40 + u"
  proof -
    have "(0xF0 + x) mod 0x8 = x" "(0x80 + y) mod 0x40 = y" "(0x80 + z) mod 0x40 = z"
      "(0x80 + u) mod 0x40 = u"
      using assms(5,6,7,8) by (simp_all add: mod_offset)
    then show ?thesis
      unfolding assms(1,2,3,4) by simp
  qed
  finally show ?thesis .
qed

lemma scalar_split3:
  fixes cp :: nat
  shows "((cp div 0x1000) * 0x40 + cp div 0x40 mod 0x40) * 0x40 + cp mod 0x40 = cp"
proof -
  have "cp div 0x1000 = cp div 0x40 div 0x40"
    by (simp add: div_mult2_eq [symmetric])
  then have "(cp div 0x1000) * 0x40 + cp div 0x40 mod 0x40 = cp div 0x40"
    by simp
  then show ?thesis by simp
qed

lemma scalar_split4:
  fixes cp :: nat
  shows "(((cp div 0x40000) * 0x40 + cp div 0x1000 mod 0x40) * 0x40 + cp div 0x40 mod 0x40) * 0x40
           + cp mod 0x40 = cp"
proof -
  have "cp div 0x40000 = cp div 0x1000 div 0x40"
    by (simp add: div_mult2_eq [symmetric])
  then have "(cp div 0x40000) * 0x40 + cp div 0x1000 mod 0x40 = cp div 0x1000"
    by simp
  then show ?thesis
    using scalar_split3 [of cp] by simp
qed

lemma second_byte_range3:
  fixes x y z :: nat
  assumes "y < 64" "z < 64" "0x800 \<le> (x * 0x40 + y) * 0x40 + z"
     "(x * 0x40 + y) * 0x40 + z < 0xD800 \<or> 0xE000 \<le> (x * 0x40 + y) * 0x40 + z"
  shows "x = 0 \<longrightarrow> 32 \<le> y" "x = 13 \<longrightarrow> y < 32"
  using assms by auto

lemma second_byte_range4:
  fixes x y z u :: nat
  assumes "y < 64" "z < 64" "u < 64" "0x10000 \<le> ((x * 0x40 + y) * 0x40 + z) * 0x40 + u"
     "((x * 0x40 + y) * 0x40 + z) * 0x40 + u < 0x110000"
  shows "x = 0 \<longrightarrow> 16 \<le> y" "x = 4 \<longrightarrow> y < 16"
  using assms by auto


lemma div_bounds:
  fixes cp :: nat
  shows "cp < 0x800 \<Longrightarrow> cp div 0x40 < 32"
    and "0x80 \<le> cp \<Longrightarrow> 2 \<le> cp div 0x40"
    and "cp < 0x10000 \<Longrightarrow> cp div 0x1000 < 16"
    and "cp < 0x110000 \<Longrightarrow> cp div 0x40000 \<le> 4"
  by simp_all

lemma utf8_roundtrip:
  assumes "isScalarValue cp"
  shows "utf8Decode utf8Initial (utf8Encode1 cp @ rest) = cp # utf8Decode utf8Initial rest"
proof -
  consider "cp < 0x80" | "0x80 \<le> cp" "cp < 0x800" | "0x800 \<le> cp" "cp < 0x10000"
    | "0x10000 \<le> cp" "cp < 0x110000"
    using assms unfolding isScalarValue_def by linarith
  then show ?thesis
  proof cases
    case 1
    then have "unat (of_nat cp :: 8 word) = cp"
      by (simp add: unat_of_nat_byte)
    then show ?thesis
      using 1 by (simp add: utf8Encode1_def utf8Decode_ascii)
  next
    case 2
    let ?x = "cp div 0x40" and ?y = "cp mod 0x40"
    have x: "2 \<le> ?x" "?x < 32"
      using 2 by (simp_all add: div_bounds)
    have enc: "utf8Encode1 cp @ rest = of_nat (0xC0 + ?x) # of_nat (0x80 + ?y) # rest"
      using 2 by (simp add: utf8Encode1_def)
    have "utf8Decode utf8Initial (of_nat (0xC0 + ?x) # of_nat (0x80 + ?y) # rest)
          = (?x * 0x40 + ?y) # utf8Decode utf8Initial rest"
      using x by (intro utf8Decode_seq2 unat_of_nat_byte) simp_all
    then show ?thesis
      unfolding enc by simp
  next
    case 3
    let ?x = "cp div 0x1000" and ?y = "cp div 0x40 mod 0x40" and ?z = "cp mod 0x40"
    have x: "?x < 16"
      using 3 by (simp add: div_bounds)
    have cp: "(?x * 0x40 + ?y) * 0x40 + ?z = cp"
      by (rule scalar_split3)
    have range: "0x800 \<le> (?x * 0x40 + ?y) * 0x40 + ?z"
      "(?x * 0x40 + ?y) * 0x40 + ?z < 0xD800 \<or> 0xE000 \<le> (?x * 0x40 + ?y) * 0x40 + ?z"
      unfolding cp using 3 assms by (auto simp add: isScalarValue_def)
    have lim: "?x = 0 \<longrightarrow> 32 \<le> ?y" "?x = 13 \<longrightarrow> ?y < 32"
      using second_byte_range3 [OF _ _ range] by simp_all
    have enc: "utf8Encode1 cp @ rest
               = of_nat (0xE0 + ?x) # of_nat (0x80 + ?y) # of_nat (0x80 + ?z) # rest"
      using 3 by (simp add: utf8Encode1_def)
    have "utf8Decode utf8Initial
            (of_nat (0xE0 + ?x) # of_nat (0x80 + ?y) # of_nat (0x80 + ?z) # rest)
          = ((?x * 0x40 + ?y) * 0x40 + ?z) # utf8Decode utf8Initial rest"
      using x lim by (intro utf8Decode_seq3 unat_of_nat_byte) simp_all
    then show ?thesis
      unfolding enc cp .
  next
    case 4
    let ?x = "cp div 0x40000" and ?y = "cp div 0x1000 mod 0x40" and ?z = "cp div 0x40 mod 0x40"
      and ?u = "cp mod 0x40"
    have x: "?x \<le> 4"
      using 4 by (simp add: div_bounds)
    have cp: "((?x * 0x40 + ?y) * 0x40 + ?z) * 0x40 + ?u = cp"
      by (rule scalar_split4)
    have range: "0x10000 \<le> ((?x * 0x40 + ?y) * 0x40 + ?z) * 0x40 + ?u"
      "((?x * 0x40 + ?y) * 0x40 + ?z) * 0x40 + ?u < 0x110000"
      unfolding cp using 4 by simp_all
    have lim: "?x = 0 \<longrightarrow> 16 \<le> ?y" "?x = 4 \<longrightarrow> ?y < 16"
      using second_byte_range4 [OF _ _ _ range] by simp_all
    have enc: "utf8Encode1 cp @ rest
               = of_nat (0xF0 + ?x) # of_nat (0x80 + ?y) # of_nat (0x80 + ?z)
                 # of_nat (0x80 + ?u) # rest"
      using 4 by (simp add: utf8Encode1_def)
    have "utf8Decode utf8Initial
            (of_nat (0xF0 + ?x) # of_nat (0x80 + ?y) # of_nat (0x80 + ?z) # of_nat (0x80 + ?u) # rest)
          = (((?x * 0x40 + ?y) * 0x40 + ?z) * 0x40 + ?u) # utf8Decode utf8Initial rest"
      using x lim by (intro utf8Decode_seq4 unat_of_nat_byte) simp_all
    then show ?thesis
      unfolding enc cp .
  qed
qed

lemma utf8Decode_Nil: "utf8Decode utf8Initial [] = []"
  by (simp add: utf8Decode.simps(1) utf8Initial_def)

lemma utf8Decode_encode:
  "list_all isScalarValue cps \<Longrightarrow> utf8Decode utf8Initial (concat (map utf8Encode1 cps)) = cps"
  by (induction cps) (simp_all add: utf8_roundtrip utf8Decode_Nil)

lemma utf8Decode_bom:
  "utf8Decode utf8Initial ([0xEF, 0xBB, 0xBF] @ rest) = 0xFEFF # utf8Decode utf8Initial rest"
  using utf8Decode_seq3 [of "0xEF" 15 "0xBB" 59 "0xBF" 63 rest] by simp

lemma surrogate_unat:
  "isHighSurrogate c \<longleftrightarrow> 0xD800 \<le> unat c \<and> unat c \<le> 0xDBFF"
  "isLowSurrogate c \<longleftrightarrow> 0xDC00 \<le> unat c \<and> unat c \<le> 0xDFFF"
  by (simp_all add: isHighSurrogate_def isLowSurrogate_def word_le_nat_alt)

lemma unat_unit: "unat (c :: 16 word) < 0x10000"
  using unsigned_less [of c] by simp

lemma toScalarValues_scalar: "list_all isScalarValue (toScalarValues s)"
proof (induction s rule: toScalarValues.induct)
  case 1
  show ?case by simp
next
  case (2 c)
  show ?case
    using unat_unit [of c] by (auto simp add: isScalarValue_def surrogate_unat)
next
  case (3 c d cs)
  show ?case
  proof (cases "isHighSurrogate c \<and> isLowSurrogate d")
    case True
    then have "0x10000 + (unat c - 0xD800) * 0x400 + (unat d - 0xDC00) < 0x110000"
      by (auto simp add: surrogate_unat)
    then show ?thesis
      using True 3 by (simp add: isScalarValue_def)
  next
    case False
    then show ?thesis
      using 3 unat_unit [of c] by (auto simp add: isScalarValue_def surrogate_unat)
  qed
qed

lemma fromCodePoint_unit: "fromCodePoint (unat (c :: 16 word)) = [c]"
  using unat_unit [of c] by (simp add: fromCodePoint_def)

lemma fromCodePoint_pair:
  assumes "isHighSurrogate c" and "isLowSurrogate d"
  shows "fromCodePoint (0x10000 + (unat c - 0xD800) * 0x400 + (unat d - 0xDC00)) = [c, d]"
proof -
  let ?h = "unat c - 0xD800" and ?l = "unat d - 0xDC00"
  have l: "?l < 0x400" and h: "0xD800 \<le> unat c" and d: "0xDC00 \<le> unat d"
    using assms by (auto simp add: surrogate_unat)
  have "(?h * 0x400 + ?l) div 0x400 = ?h" "(?h * 0x400 + ?l) mod 0x400 = ?l"
    using l by simp_all
  moreover have "0xD800 + ?h = unat c" "0xDC00 + ?l = unat d"
    using h d by simp_all
  ultimately have "of_nat (0xD800 + (?h * 0x400 + ?l) div 0x400) = c"
    "of_nat (0xDC00 + (?h * 0x400 + ?l) mod 0x400) = d"
    by (simp_all only: of_nat_unat ucast_id)
  then show ?thesis
    by (simp add: fromCodePoint_def)
qed

lemma fromCodePoint_toScalarValues:
  "wellFormed s \<Longrightarrow> concat (map fromCodePoint (toScalarValues s)) = s"
proof (induction s rule: toScalarValues.induct)
  case 1
  show ?case by simp
next
  case (2 c)
  then show ?case
    by (simp add: fromCodePoint_unit split: if_splits)
next
  case (3 c d cs)
  show ?case
  proof (cases "isHighSurrogate c")
    case True
    with 3(3) have low: "isLowSurrogate d" and wf: "wellFormed cs"
      by simp_all
    have "concat (map fromCodePoint (toScalarValues cs)) = cs"
      using 3(1) True low wf by simp
    then show ?thesis
      using True low by (simp add: fromCodePoint_pair)
  next
    case False
    with 3(3) have nl: "\<not> isLowSurrogate c" and wf: "wellFormed (d # cs)"
      by (simp_all split: if_splits)
    have "concat (map fromCodePoint (toScalarValues (d # cs))) = d # cs"
      using 3(2) False wf by simp
    then show ?thesis
      using False nl by (simp add: fromCodePoint_unit)
  qed
qed


lemma unat_not_bom: "(c :: 16 word) \<noteq> 0xFEFF \<Longrightarrow> unat c \<noteq> 0xFEFF"
proof
  assume ne: "c \<noteq> 0xFEFF" and eq: "unat c = 0xFEFF"
  have "unat c = unat (0xFEFF :: 16 word)"
    using eq by simp
  then have "c = 0xFEFF"
    by (simp only: word_unat_eq_iff [symmetric])
  with ne show False by simp
qed

lemma hd_toScalarValues:
  "s \<noteq> [] \<Longrightarrow> hd s \<noteq> 0xFEFF \<Longrightarrow>
   toScalarValues s \<noteq> [] \<and> hd (toScalarValues s) \<noteq> 0xFEFF"
proof (cases s rule: toScalarValues.cases)
  case 1
  assume "s \<noteq> []"
  with 1 show ?thesis by simp
next
  case (2 c)
  assume "hd s \<noteq> 0xFEFF"
  with 2 have "unat c \<noteq> 0xFEFF"
    by (simp add: unat_not_bom)
  with 2 show ?thesis by simp
next
  case (3 c d cs)
  assume "hd s \<noteq> 0xFEFF"
  with 3 have "unat c \<noteq> 0xFEFF"
    by (simp add: unat_not_bom)
  with 3 show ?thesis by simp
qed

text \<open>The decoded text of the encoded text is the text.\<close>

lemma TextDecoder_TextEncoder:
  assumes "wellFormed s" and "take 1 s \<noteq> [0xFEFF]"
  shows "TextDecoder_decode (TextEncoder_encode s) = s"
proof -
  let ?cps = "toScalarValues s"
  let ?enc = "concat (map utf8Encode1 ?cps)"
  have dec: "utf8Decode utf8Initial ?enc = ?cps"
    by (rule utf8Decode_encode) (rule toScalarValues_scalar)
  have "take 3 ?enc \<noteq> [0xEF, 0xBB, 0xBF]"
  proof
    assume bom: "take 3 ?enc = [0xEF, 0xBB, 0xBF]"
    have "?enc = take 3 ?enc @ drop 3 ?enc"
      by simp
    then have "?enc = [0xEF, 0xBB, 0xBF] @ drop 3 ?enc"
      unfolding bom .
    then have "utf8Decode utf8Initial ?enc = 0xFEFF # utf8Decode utf8Initial (drop 3 ?enc)"
      using utf8Decode_bom [of "drop 3 ?enc"] by simp
    with dec have "?cps = 0xFEFF # utf8Decode utf8Initial (drop 3 ?enc)"
      by simp
    then have first: "?cps \<noteq> []" "hd ?cps = 0xFEFF"
      by (metis list.distinct(1), metis list.sel(1))
    then have "s \<noteq> []"
      by auto
    moreover from this assms(2) have "hd s \<noteq> 0xFEFF"
      by (cases s) simp_all
    ultimately show False
      using hd_toScalarValues [of s] first by simp
  qed
  then show ?thesis
    using dec assms(1) by (simp add: TextDecoder_decode_def TextEncoder_encode_def
        fromCodePoint_toScalarValues)
qed

text \<open>
  Claim C1. For every payload that is JSON-representable (its JSON text is a well-formed
  string that does not start with a byte order mark, and \<^verbatim>\<open>JSON.parse\<close> reads the
  payload back from it), \<^verbatim>\<open>makeEventKey\<close> returns a key, and \<^verbatim>\<open>readEventKey\<close>
  of that key returns the payload.
\<close>

theorem readEventKey_makeEventKey:
  "representable J p \<Longrightarrow>
   (case makeEventKey J p of None \<Rightarrow> None | Some key \<Rightarrow> readEventKey J key)
     = Some \<lparr>payload_eid = Some (key_eid p), payload_state = key_state p\<rparr>"
proof -
  assume rep: "representable J p"
  let ?text = "stringifyPayload J p"
  let ?enc = "TextEncoder_encode ?text"
  obtain key where key: "btoa (map ucast ?enc) = Some key"
    "atob (trim key) = Some (map ucast ?enc)"
    "map (ucast :: 16 word \<Rightarrow> 8 word) (map ucast ?enc) = ?enc"
    using transport_bytes [of ?enc] by blast
  have "TextDecoder_decode ?enc = ?text"
    using rep by (intro TextDecoder_TextEncoder) (simp_all add: representable_def)
  then have "readEventKey J key = parsePayload J ?text"
    using key(2,3) by (simp add: readEventKey_def)
  then show ?thesis
    using key(1) rep by (simp add: makeEventKey_def representable_def)
qed

theorem readEventKey_makeEventKey_witness:
  "representable exampleJSON examplePayload \<and>
   makeEventKey exampleJSON examplePayload = Some (js ''e+S9oPCfmIB8TWVldH0='') \<and>
   readEventKey exampleJSON (js ''e+S9oPCfmIB8TWVldH0='')
     = Some \<lparr>payload_eid = Some [0x4F60, 0xD83D, 0xDE00], payload_state = exampleState (js ''Meet'')\<rparr>"
proof -
  have str: "stringifyPayload exampleJSON examplePayload
      = [0x7B, 0x4F60, 0xD83D, 0xDE00, 0x7C, 0x4D, 0x65, 0x65, 0x74, 0x7D]"
    by (simp add: exampleJSON_def examplePayload_def exampleState_def js_def)
  have rep: "representable exampleJSON examplePayload"
    unfolding representable_def str
    by (simp add: exampleJSON_def examplePayload_def exampleState_def js_def
        isHighSurrogate_def isLowSurrogate_def)
  have enc: "TextEncoder_encode [0x7B, 0x4F60, 0xD83D, 0xDE00, 0x7C, 0x4D, 0x65, 0x65, 0x74, 0x7D]
      = [0x7B, 0xE4, 0xBD, 0xA0, 0xF0, 0x9F, 0x98, 0x80, 0x7C, 0x4D, 0x65, 0x65, 0x74, 0x7D]"
    by (simp add: TextEncoder_encode_def utf8Encode1_def isHighSurrogate_def isLowSurrogate_def)
  have key: "makeEventKey exampleJSON examplePayload = Some (js ''e+S9oPCfmIB8TWVldH0='')"
    unfolding makeEventKey_def str enc Let_def
    by (simp add: btoa_def base64Char_def js_def)
  show ?thesis
    using readEventKey_makeEventKey [OF rep] rep key
    by (simp add: examplePayload_def)
qed

end
